theory Spec2Isabelle
  imports Main
begin

section \<open>Strings of the audited program\<close>

text \<open>
  A JavaScript string is a sequence of UTF-16 code units. The development covers the
  strings whose code units are below 256 (ISO 8859-1), one \<^typ>\<open>char\<close> per code unit:
  on these \<^verbatim>\<open>toLowerCase\<close> keeps the length, and the white space of \<^verbatim>\<open>\s\<close> and of
  \<^verbatim>\<open>trim\<close> is the same set of seven code units. A falsy argument (\<^verbatim>\<open>undefined\<close>,
  \<^verbatim>\<open>null\<close>, the empty string) is the empty string: the program reads such an argument
  only through \<^verbatim>\<open>x || ""\<close> and \<^verbatim>\<open>!x\<close>.
\<close>

definition code_unit :: "char \<Rightarrow> nat" where
  "code_unit c = of_char c"

text \<open>
  The three tests on a code unit are written on its bits, lowest first, so that they
  evaluate without arithmetic; \<open>is_space_code_unit\<close>, \<open>is_word_char_code_unit\<close>,
  \<open>is_digit_code_unit\<close> and \<open>lower_char_code_unit\<close> below give them by their code units:
  white space is 9 to 13, 32 and 160; a word character is one of \<^verbatim>\<open>[A-Za-z0-9_]\<close>; the
  capital letters are 65 to 90 and 192 to 222 without 215, and their small letters lie 32
  above.
\<close>

fun is_space :: "char \<Rightarrow> bool" where
  "is_space (Char b0 b1 b2 b3 b4 b5 b6 b7) =
     ((\<not> b7 \<and> \<not> b6 \<and> \<not> b5 \<and> \<not> b4 \<and> b3 \<and> ((\<not> b2 \<and> (b1 \<or> b0)) \<or> (b2 \<and> \<not> b1))) \<or>
      (\<not> b6 \<and> b5 \<and> \<not> b4 \<and> \<not> b3 \<and> \<not> b2 \<and> \<not> b1 \<and> \<not> b0))"

fun is_digit :: "char \<Rightarrow> bool" where
  "is_digit (Char b0 b1 b2 b3 b4 b5 b6 b7) =
     (\<not> b7 \<and> \<not> b6 \<and> b5 \<and> b4 \<and> (\<not> b3 \<or> (\<not> b2 \<and> \<not> b1)))"

fun is_word_char :: "char \<Rightarrow> bool" where
  "is_word_char (Char b0 b1 b2 b3 b4 b5 b6 b7) =
     (\<not> b7 \<and>
      ((\<not> b6 \<and> b5 \<and> b4 \<and> (\<not> b3 \<or> (\<not> b2 \<and> \<not> b1))) \<or>
       (b6 \<and> (b0 \<or> b1 \<or> b2 \<or> b3 \<or> b4) \<and> \<not> (b4 \<and> b3 \<and> (b2 \<or> (b1 \<and> b0)))) \<or>
       (b6 \<and> \<not> b5 \<and> b4 \<and> b3 \<and> b2 \<and> b1 \<and> b0)))"

fun lower_char :: "char \<Rightarrow> char" where
  "lower_char (Char b0 b1 b2 b3 b4 b5 b6 b7) =
     (if b6 \<and> \<not> b5 \<and>
         (if b7 then \<not> (b4 \<and> b2 \<and> b1 \<and> b0)
          else (b0 \<or> b1 \<or> b2 \<or> b3 \<or> b4) \<and> \<not> (b4 \<and> b3 \<and> (b2 \<or> (b1 \<and> b0))))
      then Char b0 b1 b2 b3 b4 True b6 b7
      else Char b0 b1 b2 b3 b4 b5 b6 b7)"

definition toLowerCase :: "string \<Rightarrow> string" where
  "toLowerCase s = map lower_char s"

text \<open>\<^verbatim>\<open>s.replace(/\s+/g, r)\<close>: every maximal run of white space becomes \<open>r\<close>.\<close>

fun replace_ws_from :: "bool \<Rightarrow> string \<Rightarrow> string \<Rightarrow> string" where
  "replace_ws_from in_run r [] = []"
| "replace_ws_from in_run r (c # cs) =
     (if is_space c then (if in_run then replace_ws_from True r cs else r @ replace_ws_from True r cs)
      else c # replace_ws_from False r cs)"

definition replace_ws_runs :: "string \<Rightarrow> string \<Rightarrow> string" where
  "replace_ws_runs r s = replace_ws_from False r s"

definition trim :: "string \<Rightarrow> string" where
  "trim s = rev (dropWhile is_space (rev (dropWhile is_space s)))"

text \<open>\<^verbatim>\<open>const normalize = s => (s || "").toLowerCase().replace(/\s+/g, " ").trim()\<close>\<close>

definition normalize :: "string \<Rightarrow> string" where
  "normalize s = trim (replace_ws_runs '' '' (toLowerCase s))"

text \<open>\<open>starts_with t k\<close>: \<open>k\<close> stands at the head of \<open>t\<close>.\<close>

fun starts_with :: "string \<Rightarrow> string \<Rightarrow> bool" where
  "starts_with t [] = True"
| "starts_with [] (k # ks) = False"
| "starts_with (c # cs) (k # ks) = (c = k \<and> starts_with cs ks)"

text \<open>\<^verbatim>\<open>text.includes(k)\<close>\<close>

fun str_includes :: "string \<Rightarrow> string \<Rightarrow> bool" where
  "str_includes [] k = (k = [])"
| "str_includes (c # cs) k = (starts_with (c # cs) k \<or> str_includes cs k)"

text \<open>\<^verbatim>\<open>const containsAny = (text, keywords) => keywords.some(k => text.includes(k))\<close>\<close>

definition containsAny :: "string \<Rightarrow> string list \<Rightarrow> bool" where
  "containsAny t keywords = list_ex (\<lambda>k. str_includes t k) keywords"

text \<open>
  \<^verbatim>\<open>t.indexOf(k)\<close> and \<^verbatim>\<open>t.lastIndexOf(k)\<close>, with \<open>- 1\<close> when \<open>k\<close> does not occur.
\<close>

fun indexOf_from :: "string \<Rightarrow> string \<Rightarrow> int \<Rightarrow> int" where
  "indexOf_from [] k i = (if k = [] then i else - 1)"
| "indexOf_from (c # cs) k i =
     (if starts_with (c # cs) k then i else indexOf_from cs k (i + 1))"

definition indexOf :: "string \<Rightarrow> string \<Rightarrow> int" where
  "indexOf t k = indexOf_from t k 0"

fun lastIndexOf_from :: "string \<Rightarrow> string \<Rightarrow> int \<Rightarrow> int \<Rightarrow> int" where
  "lastIndexOf_from [] k i best = (if k = [] then i else best)"
| "lastIndexOf_from (c # cs) k i best =
     lastIndexOf_from cs k (i + 1) (if starts_with (c # cs) k then i else best)"

definition lastIndexOf :: "string \<Rightarrow> string \<Rightarrow> int" where
  "lastIndexOf t k = lastIndexOf_from t k 0 (- 1)"

text \<open>
  \<^verbatim>\<open>s.split(/\s+/)\<close>, for the pieces that are not empty: the maximal runs of code units
  that are not white space. (The empty pieces a leading or trailing separator gives are
  dropped by every filter the program applies to the result.)
\<close>

fun split_ws_from :: "string \<Rightarrow> string \<Rightarrow> string list" where
  "split_ws_from cur [] = (if cur = [] then [] else [cur])"
| "split_ws_from cur (c # cs) =
     (if is_space c then (if cur = [] then split_ws_from [] cs else cur # split_ws_from [] cs)
      else split_ws_from (cur @ [c]) cs)"

definition split_ws :: "string \<Rightarrow> string list" where
  "split_ws s = split_ws_from [] s"

section \<open>Regular expressions\<close>

text \<open>
  The program builds the source of a pattern from the legal name and hands it to the
  runtime: \<^verbatim>\<open>new RegExp(src, 'i').test(subject)\<close>. The constructor throws a
  \<^verbatim>\<open>SyntaxError\<close> on a source that is not a pattern. The runtime is not code of the
  program, so \<open>containsLegalName\<close> takes it as a parameter: the source and the subject
  in, an exception or the answer out.
\<close>

datatype js_error = JsError (message: string)

type_synonym regexp_engine = "string \<Rightarrow> string \<Rightarrow> js_error + bool"

definition bslash :: char where
  "bslash = CHR 0x5C"

subsection \<open>A reference engine for a fragment of the pattern language\<close>

text \<open>
  The fragment of ECMAScript's pattern language (without the \<^verbatim>\<open>u\<close> flag, with the
  \<^verbatim>\<open>i\<close> flag) read here: pattern characters, \<^verbatim>\<open>.\<close>, the class escapes
  \<^verbatim>\<open>\d \D \s \S \w \W\<close>, an escaped syntax character, the assertions
  \<^verbatim>\<open>^ $ \b \B\<close>, capturing groups, alternatives, and the quantifiers \<^verbatim>\<open>* + ?\<close>
  (each also lazy, which does not change whether a match exists). A source with anything
  else (a character class, a braced quantifier, \<^verbatim>\<open>(?\<close>, any other escape) is beyond the
  fragment and is handed to the engine \<open>ext\<close>.
\<close>

datatype char_class = Digit | Space | Word

datatype rx_node =
    REmpty
  | RChar char
  | RAny
  | RClass char_class bool
  | RWordB bool
  | RBol
  | REol
  | RSeq rx_node rx_node
  | RAlt rx_node rx_node
  | ROpt rx_node
  | RStar rx_node
  | RPlus rx_node

datatype term_kind = Atom | Assertion | Quantified | QuantifiedLazy

datatype parse_result = Parsed rx_node | Invalid string | Beyond

type_synonym frame = "rx_node list \<times> (rx_node \<times> term_kind) list"

definition is_syntax_char :: "char \<Rightarrow> bool" where
  "is_syntax_char c = (c \<in> set ''^$.*+?()[]{}|'' \<or> c = bslash)"

definition mk_seq :: "(rx_node \<times> term_kind) list \<Rightarrow> rx_node" where
  "mk_seq ts = foldr (\<lambda>t r. RSeq (fst t) r) ts REmpty"

fun mk_alt :: "rx_node list \<Rightarrow> rx_node" where
  "mk_alt [] = REmpty"
| "mk_alt [a] = a"
| "mk_alt (a # b # bs) = RAlt a (mk_alt (b # bs))"

definition close_frame :: "frame \<Rightarrow> rx_node" where
  "close_frame f = mk_alt (fst f @ [mk_seq (snd f)])"

definition add_term :: "rx_node \<times> term_kind \<Rightarrow> frame list \<Rightarrow> frame list" where
  "add_term t stack =
     (case stack of [] \<Rightarrow> [] | f # fs \<Rightarrow> (fst f, snd f @ [t]) # fs)"

text \<open>
  A quantifier applies to the last term of the alternative being read; there is nothing
  to repeat when there is none, or when it is an assertion or already carries a lazy
  quantifier. \<^verbatim>\<open>?\<close> right after a quantifier makes it lazy.
\<close>

definition quantify :: "char \<Rightarrow> frame list \<Rightarrow> frame list option" where
  "quantify q stack =
     (case stack of
        [] \<Rightarrow> None
      | f # fs \<Rightarrow>
          (if snd f = [] then None
           else
             let body = butlast (snd f); t = last (snd f)
             in (case snd t of
                   Atom \<Rightarrow>
                     Some ((fst f,
                            body @ [((if q = CHR ''*'' then RStar (fst t)
                                      else if q = CHR ''+'' then RPlus (fst t)
                                      else ROpt (fst t)), Quantified)]) # fs)
                 | Quantified \<Rightarrow>
                     (if q = CHR ''?'' then Some ((fst f, body @ [(fst t, QuantifiedLazy)]) # fs)
                      else None)
                 | Assertion \<Rightarrow> None
                 | QuantifiedLazy \<Rightarrow> None)))"

definition escape_term :: "char \<Rightarrow> (rx_node \<times> term_kind) option" where
  "escape_term c =
     (if c = CHR ''b'' then Some (RWordB True, Assertion)
      else if c = CHR ''B'' then Some (RWordB False, Assertion)
      else if c = CHR ''d'' then Some (RClass Digit False, Atom)
      else if c = CHR ''D'' then Some (RClass Digit True, Atom)
      else if c = CHR ''s'' then Some (RClass Space False, Atom)
      else if c = CHR ''S'' then Some (RClass Space True, Atom)
      else if c = CHR ''w'' then Some (RClass Word False, Atom)
      else if c = CHR ''W'' then Some (RClass Word True, Atom)
      else if is_syntax_char c \<or> c = CHR ''/'' then Some (RChar c, Atom)
      else None)"

text \<open>
  The source is read from left to right, with the groups still open on a stack (the
  pattern itself at its bottom); \<open>esc\<close> says that the code unit before was a backslash.
\<close>

fun parse_from :: "bool \<Rightarrow> frame list \<Rightarrow> string \<Rightarrow> parse_result" where
  "parse_from esc stack [] =
     (if esc then Invalid (bslash # '' at end of pattern'')
      else (case stack of
              [f] \<Rightarrow> Parsed (close_frame f)
            | _ \<Rightarrow> Invalid ''Unterminated group''))"
| "parse_from esc stack (c # cs) =
     (if esc then
        (case escape_term c of
           None \<Rightarrow> Beyond
         | Some t \<Rightarrow> parse_from False (add_term t stack) cs)
      else if c = bslash then parse_from True stack cs
      else if c = CHR ''('' then
        (case cs of
           [] \<Rightarrow> Invalid ''Unterminated group''
         | d # _ \<Rightarrow> if d = CHR ''?'' then Beyond else parse_from False (([], []) # stack) cs)
      else if c = CHR '')'' then
        (case stack of
           f # g # fs \<Rightarrow> parse_from False (add_term (close_frame f, Atom) (g # fs)) cs
         | _ \<Rightarrow> Invalid ''Unmatched )'')
      else if c = CHR ''|'' then
        (case stack of
           [] \<Rightarrow> Beyond
         | f # fs \<Rightarrow> parse_from False ((fst f @ [mk_seq (snd f)], []) # fs) cs)
      else if c = CHR ''*'' \<or> c = CHR ''+'' \<or> c = CHR ''?'' then
        (case quantify c stack of
           None \<Rightarrow> Invalid ''Nothing to repeat''
         | Some stack' \<Rightarrow> parse_from False stack' cs)
      else if c = CHR ''^'' then parse_from False (add_term (RBol, Assertion) stack) cs
      else if c = CHR ''$'' then parse_from False (add_term (REol, Assertion) stack) cs
      else if c = CHR ''.'' then parse_from False (add_term (RAny, Atom) stack) cs
      else if c \<in> set ''[]{}'' then Beyond
      else parse_from False (add_term (RChar c, Atom) stack) cs)"

definition parse_pattern :: "string \<Rightarrow> parse_result" where
  "parse_pattern src = parse_from False [([], [])] src"

definition in_class :: "char_class \<Rightarrow> char \<Rightarrow> bool" where
  "in_class k c =
     (case k of
        Digit \<Rightarrow> is_digit c
      | Space \<Rightarrow> is_space c
      | Word \<Rightarrow> is_word_char c)"

definition is_line_terminator :: "char \<Rightarrow> bool" where
  "is_line_terminator c = (c = CHR 0x0A \<or> c = CHR 0x0D)"

text \<open>
  A place in the subject: its index, whether the code unit before it is a word
  character, and the rest of the subject from there.
\<close>

type_synonym cursor = "nat \<times> bool \<times> string"

fun insert_cursor :: "cursor \<Rightarrow> cursor list \<Rightarrow> cursor list" where
  "insert_cursor k [] = [k]"
| "insert_cursor k (j # js) = (if fst j = fst k then j # js else j # insert_cursor k js)"

definition union_cursors :: "cursor list \<Rightarrow> cursor list \<Rightarrow> cursor list" where
  "union_cursors S T = foldl (\<lambda>acc k. insert_cursor k acc) S T"

text \<open>The places reachable from \<open>S\<close> by repeating \<open>f\<close>, in at most \<open>n\<close> rounds.\<close>

fun closure :: "(cursor \<Rightarrow> cursor list) \<Rightarrow> nat \<Rightarrow> cursor list \<Rightarrow> cursor list" where
  "closure f 0 S = S"
| "closure f (Suc n) S =
     (let S' = union_cursors S (concat (map f S))
      in if length S' = length S then S else closure f n S')"

text \<open>
  \<open>ends r k\<close>: the places where a match of \<open>r\<close> that starts at the place \<open>k\<close> can end.
  Two code units below 256 are equal under the \<^verbatim>\<open>i\<close> flag exactly when their
  lower-case forms are. A place is a word boundary when exactly one of the code units
  around it is a word character.
\<close>

fun ends :: "rx_node \<Rightarrow> cursor \<Rightarrow> cursor list" where
  "ends REmpty k = [k]"
| "ends (RChar c) (i, pw, t) =
     (case t of
        [] \<Rightarrow> []
      | d # ds \<Rightarrow> if lower_char d = lower_char c then [(Suc i, is_word_char d, ds)] else [])"
| "ends RAny (i, pw, t) =
     (case t of
        [] \<Rightarrow> []
      | d # ds \<Rightarrow> if \<not> is_line_terminator d then [(Suc i, is_word_char d, ds)] else [])"
| "ends (RClass c neg) (i, pw, t) =
     (case t of
        [] \<Rightarrow> []
      | d # ds \<Rightarrow> if in_class c d \<noteq> neg then [(Suc i, is_word_char d, ds)] else [])"
| "ends (RWordB b) (i, pw, t) =
     (if (pw \<noteq> (case t of [] \<Rightarrow> False | d # ds \<Rightarrow> is_word_char d)) = b then [(i, pw, t)]
      else [])"
| "ends RBol (i, pw, t) = (if i = 0 then [(i, pw, t)] else [])"
| "ends REol (i, pw, t) = (if t = [] then [(i, pw, t)] else [])"
| "ends (RSeq a b) k = union_cursors [] (concat (map (ends b) (ends a k)))"
| "ends (RAlt a b) k = union_cursors (ends a k) (ends b k)"
| "ends (ROpt a) k = union_cursors [k] (ends a k)"
| "ends (RStar a) k = closure (ends a) (length (snd (snd k))) [k]"
| "ends (RPlus a) k =
     union_cursors []
       (concat (map (\<lambda>j. closure (ends a) (length (snd (snd j))) [j]) (ends a k)))"

text \<open>\<open>search r i pw t\<close>: a match of \<open>r\<close> starts at the place \<open>(i, pw, t)\<close> or after it.\<close>

fun search :: "rx_node \<Rightarrow> nat \<Rightarrow> bool \<Rightarrow> string \<Rightarrow> bool" where
  "search r i pw [] = (ends r (i, pw, []) \<noteq> [])"
| "search r i pw (d # ds) =
     (ends r (i, pw, d # ds) \<noteq> [] \<or> search r (Suc i) (is_word_char d) ds)"

definition rx_test :: "rx_node \<Rightarrow> string \<Rightarrow> bool" where
  "rx_test r t = search r 0 False t"

definition RegExp_i_test :: "regexp_engine \<Rightarrow> regexp_engine" where
  "RegExp_i_test ext src subject =
     (case parse_pattern src of
        Parsed r \<Rightarrow> Inr (rx_test r subject)
      | Invalid m \<Rightarrow> Inl (JsError (''Invalid regular expression: /'' @ src @ ''/i: '' @ m))
      | Beyond \<Rightarrow> ext src subject)"

section \<open>The legal name matcher\<close>

definition suffix_words :: "string list" where
  "suffix_words =
     [''llc'', ''inc'', ''ltd'', ''corp'', ''corporation'', ''co'', ''company'', ''limited'']"

text \<open>
  \<open>suffix_at w t\<close>: the alternative \<open>w\<close> of
  \<^verbatim>\<open>/\b(?:llc|inc|ltd|corp|corporation|co|company|limited)\b/g\<close> matches at the head
  of \<open>t\<close>, with the word boundary after it.
\<close>

definition suffix_at :: "string \<Rightarrow> string \<Rightarrow> bool" where
  "suffix_at w t =
     (starts_with t w \<and>
      (case drop (length w) t of [] \<Rightarrow> True | d # _ \<Rightarrow> \<not> is_word_char d))"

text \<open>
  \<^verbatim>\<open>.replace(/\b(?:llc|...|limited)\b/g, "")\<close>, read from left to right: \<open>prev\<close> says
  that the code unit before is a word character (so no word boundary stands before a
  letter), \<open>skip\<close> counts the code units of the current match still to drop.
\<close>

fun strip_suffix_words :: "bool \<Rightarrow> nat \<Rightarrow> string \<Rightarrow> string" where
  "strip_suffix_words prev skip [] = []"
| "strip_suffix_words prev (Suc n) (c # cs) = strip_suffix_words (is_word_char c) n cs"
| "strip_suffix_words prev 0 (c # cs) =
     (if prev then c # strip_suffix_words (is_word_char c) 0 cs
      else (case find (\<lambda>w. suffix_at w (c # cs)) suffix_words of
              Some w \<Rightarrow> strip_suffix_words True (length w - 1) cs
            | None \<Rightarrow> c # strip_suffix_words (is_word_char c) 0 cs))"

definition cleanLegalName :: "string \<Rightarrow> string" where
  "cleanLegalName legalName = trim (strip_suffix_words False 0 (normalize legalName))"

definition exactPattern :: "string \<Rightarrow> string" where
  "exactPattern clean =
     [bslash, CHR ''b''] @ replace_ws_runs [bslash, CHR ''s'', CHR ''+''] clean @ [bslash, CHR ''b'']"

definition partPattern :: "string \<Rightarrow> string" where
  "partPattern part = [bslash, CHR ''b''] @ part @ [bslash, CHR ''b'']"

definition nameParts :: "string \<Rightarrow> string list" where
  "nameParts clean = filter (\<lambda>part. length part > 2) (split_ws clean)"

text \<open>
  \<^verbatim>\<open>nameParts.filter(part => new RegExp(`\\b${part}\\b`, 'i').test(pageText))\<close>: the
  first pattern that throws ends the filter.
\<close>

fun foundParts :: "regexp_engine \<Rightarrow> string list \<Rightarrow> string \<Rightarrow> js_error + string list" where
  "foundParts rx [] pageText = Inr []"
| "foundParts rx (part # parts) pageText =
     (case rx (partPattern part) pageText of
        Inl e \<Rightarrow> Inl e
      | Inr b \<Rightarrow>
          (case foundParts rx parts pageText of
             Inl e \<Rightarrow> Inl e
           | Inr found \<Rightarrow> Inr (if b then part # found else found)))"

definition proximity :: "string \<Rightarrow> string list \<Rightarrow> bool" where
  "proximity pageText found =
     (let firstPartIndex = indexOf (toLowerCase pageText) (found ! 0);
          lastPartIndex = lastIndexOf (toLowerCase pageText) (found ! (length found - 1))
      in if firstPartIndex \<noteq> - 1 \<and> lastPartIndex \<noteq> - 1
         then \<bar>lastPartIndex - firstPartIndex\<bar> < 200
         else False)"

definition containsLegalName :: "regexp_engine \<Rightarrow> string \<Rightarrow> string \<Rightarrow> js_error + bool" where
  "containsLegalName rx pageText legalName =
     (if legalName = [] \<or> trim legalName = [] then Inr False
      else
        let clean = cleanLegalName legalName
        in if clean = [] then Inr False
           else
             (case rx (exactPattern clean) pageText of
                Inl e \<Rightarrow> Inl e
              | Inr True \<Rightarrow> Inr True
              | Inr False \<Rightarrow>
                  (if length (nameParts clean) \<ge> 2 then
                     (case foundParts rx (nameParts clean) pageText of
                        Inl e \<Rightarrow> Inl e
                      | Inr found \<Rightarrow>
                          (if length found \<ge> 2 then Inr (proximity pageText found)
                           else Inr False))
                   else if length (nameParts clean) = 1 then
                     rx (partPattern (nameParts clean ! 0)) pageText
                   else Inr False)))"

section \<open>The policy catalogue\<close>

datatype policy = Privacy | Terms | Shipping | Returns | Refund | Cancellation

datatype merchant_type = Goods | Services

text \<open>The key of a policy in \<^verbatim>\<open>POLICY_CONFIG\<close>, as pushed on \<^verbatim>\<open>missingPolicies\<close>.\<close>

fun policy_key :: "policy \<Rightarrow> string" where
  "policy_key Privacy = ''privacy''"
| "policy_key Terms = ''terms''"
| "policy_key Shipping = ''shipping''"
| "policy_key Returns = ''returns''"
| "policy_key Refund = ''refund''"
| "policy_key Cancellation = ''cancellation''"

fun anchorHints :: "policy \<Rightarrow> string list" where
  "anchorHints Privacy = [''privacy'']"
| "anchorHints Terms = [''terms'']"
| "anchorHints Shipping = [''shipping'', ''delivery'']"
| "anchorHints Returns = [''return'', ''returns'']"
| "anchorHints Refund = [''refund'']"
| "anchorHints Cancellation = [''cancellation'', ''cancel'']"

fun pageKeywords :: "policy \<Rightarrow> string list" where
  "pageKeywords Privacy = [''privacy policy'', ''privacy notice'', ''privacy practices'']"
| "pageKeywords Terms =
     [''terms and conditions'', ''terms & conditions'', ''terms of use'', ''terms of service'']"
| "pageKeywords Shipping = [''shipping'', ''delivery'']"
| "pageKeywords Returns = [''return policy'', ''returns policy'', ''return'']"
| "pageKeywords Refund = [''refund policy'', ''refund'']"
| "pageKeywords Cancellation =
     [''cancellation policy'', ''cancellation'', ''cancelling'', ''cancel'']"

fun relevantFor :: "policy \<Rightarrow> merchant_type list" where
  "relevantFor Privacy = [Goods, Services]"
| "relevantFor Terms = [Goods, Services]"
| "relevantFor Shipping = [Goods]"
| "relevantFor Returns = [Goods]"
| "relevantFor Refund = [Goods, Services]"
| "relevantFor Cancellation = [Goods, Services]"

text \<open>\<^verbatim>\<open>Object.keys(POLICY_CONFIG)\<close>\<close>

definition POLICY_KEYS :: "policy list" where
  "POLICY_KEYS = [Privacy, Terms, Shipping, Returns, Refund, Cancellation]"

fun POLICY_ORDER :: "merchant_type \<Rightarrow> policy list" where
  "POLICY_ORDER Goods = [Privacy, Terms, Shipping, Returns, Refund, Cancellation]"
| "POLICY_ORDER Services = [Privacy, Terms, Refund, Cancellation]"

fun RESOLVABLE_GROUP :: "merchant_type \<Rightarrow> policy list" where
  "RESOLVABLE_GROUP Goods = [Shipping, Returns, Refund, Cancellation]"
| "RESOLVABLE_GROUP Services = [Refund, Cancellation]"

definition determineMerchantType :: "string \<Rightarrow> merchant_type" where
  "determineMerchantType input =
     (if input = [] then Goods
      else if str_includes (normalize input) ''good'' then Goods
      else Services)"

definition isProprietorship :: "string \<Rightarrow> bool" where
  "isProprietorship entityType =
     (if entityType = [] then True
      else str_includes (normalize entityType) ''proprietor'')"

definition isPolicyRelevant :: "policy \<Rightarrow> merchant_type \<Rightarrow> bool" where
  "isPolicyRelevant p merchantType = (merchantType \<in> set (relevantFor p))"

section \<open>The audit of one website\<close>

datatype policy_status = FOUND | MISSING | NOT_RELEVANT

record policy_outcome =
  present :: bool
  url :: "string option"
  pageText :: "string option"
  status :: policy_status

text \<open>\<^verbatim>\<open>legalNamePresent\<close> is \<^verbatim>\<open>true\<close>, \<^verbatim>\<open>false\<close> or the string \<^verbatim>\<open>"NOT RELEVANT"\<close>.\<close>

datatype legal_name_presence = LN_true | LN_false | LN_not_relevant

datatype compliance = PASS | FAIL

text \<open>
  The result object of \<^verbatim>\<open>checkWebsite\<close>. Its field \<^verbatim>\<open>isProprietorship\<close> is
  \<open>isProprietorshipField\<close> here (the function has the name). An absent \<^verbatim>\<open>pageText\<close>
  and a \<^verbatim>\<open>null\<close> address or error are \<open>None\<close>.
\<close>

record audit_result =
  website :: string
  merchantType :: string
  determinedMerchantType :: merchant_type
  entityType :: string
  isProprietorshipField :: bool
  legalName :: string
  legalNamePresent :: legal_name_presence
  legalNameURL :: "string option"
  policies :: "policy \<Rightarrow> policy_outcome"
  missingPolicies :: "string list"
  allRelevantPoliciesMissing :: bool
  complianceStatus :: compliance
  error :: "string option"

record link =
  link_text :: string
  link_href :: string

record visited_page =
  vp_url :: string
  vp_pageText :: string
  vp_policyType :: policy

text \<open>
  The browser page is a capability of the program: \<open>'w\<close> is whatever state the browser
  and the network are in, and each call returns the state it leaves. \<^verbatim>\<open>page.goto\<close>
  resolves or rejects; \<^verbatim>\<open>page.$$eval("a", ...)\<close> gives the anchors' text and href
  (\<^verbatim>\<open>a.innerText || ""\<close>, \<^verbatim>\<open>a.href || ""\<close>) or rejects; \<^verbatim>\<open>page.textContent("body")\<close>
  gives a string or \<^verbatim>\<open>null\<close>, or rejects.
\<close>

record 'w page =
  page_goto :: "string \<Rightarrow> 'w \<Rightarrow> (js_error + unit) \<times> 'w"
  page_eval_links :: "'w \<Rightarrow> (js_error + link list) \<times> 'w"
  page_textContent :: "'w \<Rightarrow> (js_error + string option) \<times> 'w"

text \<open>
  The state of an audit in flight: the result object being filled, the browser's state,
  the pages the primary pass has stored. Two fields are not the program's and only
  record what it did: \<open>navigations\<close> lists the address of every \<^verbatim>\<open>safeGoto\<close> call, in
  order, and \<open>collections\<close> counts the rounds of the group resolution loop.
\<close>

record 'w audit =
  result :: audit_result
  world :: 'w
  visitedPages :: "visited_page list"
  navigations :: "string list"
  collections :: nat

text \<open>A step of the audit completes, or throws in the state it has reached.\<close>

datatype 'w run = Done "'w audit" | Threw js_error "'w audit"

text \<open>What stays fixed during one audit.\<close>

record 'w ctx =
  rx :: regexp_engine
  pg :: "'w page"
  site :: string
  mtype :: merchant_type
  isProprietorEntity :: bool
  name :: string

definition safeGoto :: "'w page \<Rightarrow> string \<Rightarrow> 'w audit \<Rightarrow> bool \<times> 'w audit" where
  "safeGoto P u s =
     (case page_goto P u (world s) of
        (r, w') \<Rightarrow>
          ((case r of Inl _ \<Rightarrow> False | Inr _ \<Rightarrow> True),
           s\<lparr>world := w', navigations := navigations s @ [u]\<rparr>))"

text \<open>\<^verbatim>\<open>normalize(await page.textContent("body"))\<close>\<close>

definition bodyText :: "'w page \<Rightarrow> 'w audit \<Rightarrow> js_error \<times> 'w audit + string \<times> 'w audit" where
  "bodyText P s =
     (case page_textContent P (world s) of
        (Inl e, w') \<Rightarrow> Inl (e, s\<lparr>world := w'\<rparr>)
      | (Inr t, w') \<Rightarrow>
          Inr (normalize (case t of None \<Rightarrow> [] | Some x \<Rightarrow> x), s\<lparr>world := w'\<rparr>))"

definition setLegalName :: "string option \<Rightarrow> 'w audit \<Rightarrow> 'w audit" where
  "setLegalName u s = s\<lparr>result := (result s)\<lparr>legalNamePresent := LN_true, legalNameURL := u\<rparr>\<rparr>"

text \<open>
  The guarded check that the primary pass and the group resolution both make on a page
  that satisfied a policy:
  \<^verbatim>\<open>if (isProprietorEntity && result.legalNamePresent === false && legalName &&
      containsLegalName(text, legalName)) { result.legalNamePresent = true; result.legalNameURL = u; }\<close>
\<close>

definition noteLegalName :: "'w ctx \<Rightarrow> string \<Rightarrow> string option \<Rightarrow> 'w audit \<Rightarrow> 'w run" where
  "noteLegalName C t u s =
     (if isProprietorEntity C \<and> legalNamePresent (result s) = LN_false \<and> name C \<noteq> [] then
        (case containsLegalName (rx C) t (name C) of
           Inl e \<Rightarrow> Threw e s
         | Inr b \<Rightarrow> Done (if b then setLegalName u s else s))
      else Done s)"

definition setFound :: "policy \<Rightarrow> string option \<Rightarrow> string option \<Rightarrow> 'w audit \<Rightarrow> 'w audit" where
  "setFound p u t s =
     s\<lparr>result := (result s)\<lparr>policies := (policies (result s))
        (p := \<lparr>present = True, url = u, pageText = t, status = FOUND\<rparr>)\<rparr>\<rparr>"

subsection \<open>Primary pass\<close>

text \<open>The loop \<^verbatim>\<open>for (const link of links)\<close> of the primary pass, for the policy \<open>p\<close>.\<close>

fun primary_links :: "'w ctx \<Rightarrow> policy \<Rightarrow> link list \<Rightarrow> 'w audit \<Rightarrow> 'w run" where
  "primary_links C p [] s = Done s"
| "primary_links C p (l # ls) s =
     (if link_href l = [] \<or> link_text l = [] then primary_links C p ls s
      else if \<not> containsAny (link_text l) (anchorHints p) then primary_links C p ls s
      else
        (case safeGoto (pg C) (link_href l) s of
           (ok, s1) \<Rightarrow>
             if \<not> ok then primary_links C p ls s1
             else
               (case bodyText (pg C) s1 of
                  Inl (e, s2) \<Rightarrow> Threw e s2
                | Inr (t, s2) \<Rightarrow>
                    let s3 = s2\<lparr>visitedPages := visitedPages s2 @
                               [\<lparr>vp_url = link_href l, vp_pageText = t, vp_policyType = p\<rparr>]\<rparr>
                    in if containsAny t (pageKeywords p) then
                         (case noteLegalName C t (Some (link_href l))
                                 (setFound p (Some (link_href l)) (Some t) s3) of
                            Threw e s4 \<Rightarrow> Threw e s4
                          | Done s4 \<Rightarrow> Done (snd (safeGoto (pg C) (site C) s4)))
                       else primary_links C p ls s3)))"

fun primary_pass :: "'w ctx \<Rightarrow> link list \<Rightarrow> policy list \<Rightarrow> 'w audit \<Rightarrow> 'w run" where
  "primary_pass C links [] s = Done s"
| "primary_pass C links (p # ps) s =
     (if \<not> isPolicyRelevant p (mtype C) then primary_pass C links ps s
      else
        (case primary_links C p links s of
           Threw e s' \<Rightarrow> Threw e s'
         | Done s' \<Rightarrow> primary_pass C links ps s'))"

subsection \<open>Group resolution\<close>

text \<open>\<^verbatim>\<open>GROUP.map(p => result.policies[p]).filter(p => p && p.present && p.pageText)\<close>\<close>

definition presentSources :: "policy list \<Rightarrow> 'w audit \<Rightarrow> policy_outcome list" where
  "presentSources G s =
     filter (\<lambda>p. present p \<and> pageText p \<noteq> None \<and> pageText p \<noteq> Some [])
       (map (policies (result s)) G)"

text \<open>
  The loop \<^verbatim>\<open>for (const source of presentSources)\<close>. Every source holds a text (the
  filter above kept only those), so the first case of the model is never taken.
\<close>

fun group_sources :: "'w ctx \<Rightarrow> policy \<Rightarrow> policy_outcome list \<Rightarrow> 'w audit \<Rightarrow> 'w run" where
  "group_sources C p [] s = Done s"
| "group_sources C p (src # srcs) s =
     (case pageText src of
        None \<Rightarrow> group_sources C p srcs s
      | Some t \<Rightarrow>
          if containsAny t (pageKeywords p)
          then noteLegalName C t (url src) (setFound p (url src) (Some t) s)
          else group_sources C p srcs s)"

fun group_policies :: "'w ctx \<Rightarrow> policy_outcome list \<Rightarrow> policy list \<Rightarrow> 'w audit \<Rightarrow> 'w run" where
  "group_policies C srcs [] s = Done s"
| "group_policies C srcs (p # ps) s =
     (if \<not> isPolicyRelevant p (mtype C) \<or> present (policies (result s) p)
      then group_policies C srcs ps s
      else
        (case group_sources C p srcs s of
           Threw e s' \<Rightarrow> Threw e s'
         | Done s' \<Rightarrow> group_policies C srcs ps s'))"

text \<open>
  \<^verbatim>\<open>for (let i = 0; i < GROUP.length; i++)\<close>, with the number of rounds still to run.
\<close>

fun group_rounds :: "'w ctx \<Rightarrow> policy list \<Rightarrow> nat \<Rightarrow> 'w audit \<Rightarrow> 'w run" where
  "group_rounds C G 0 s = Done s"
| "group_rounds C G (Suc k) s =
     (let s1 = s\<lparr>collections := Suc (collections s)\<rparr>;
          srcs = presentSources G s1
      in if length srcs = 0 then Done s1
         else
           (case group_policies C srcs G s1 of
              Threw e s' \<Rightarrow> Threw e s'
            | Done s' \<Rightarrow> group_rounds C G k s'))"

definition group_resolution :: "'w ctx \<Rightarrow> 'w audit \<Rightarrow> 'w run" where
  "group_resolution C s =
     group_rounds C (RESOLVABLE_GROUP (mtype C)) (length (RESOLVABLE_GROUP (mtype C))) s"

subsection \<open>Verification step\<close>

definition clearLegalName :: "'w audit \<Rightarrow> 'w audit" where
  "clearLegalName s = s\<lparr>result := (result s)\<lparr>legalNamePresent := LN_false, legalNameURL := None\<rparr>\<rparr>"

definition verification_step :: "'w ctx \<Rightarrow> 'w audit \<Rightarrow> 'w run" where
  "verification_step C s =
     (case legalNameURL (result s) of
        None \<Rightarrow> Done s
      | Some u \<Rightarrow>
          if isProprietorEntity C \<and> legalNamePresent (result s) = LN_true \<and> u \<noteq> [] then
            (case safeGoto (pg C) u s of
               (verifyOk, s1) \<Rightarrow>
                 if verifyOk then
                   (case bodyText (pg C) s1 of
                      Inl (e, s2) \<Rightarrow> Threw e s2
                    | Inr (verifyText, s2) \<Rightarrow>
                        (case containsLegalName (rx C) verifyText (name C) of
                           Inl e \<Rightarrow> Threw e s2
                         | Inr b \<Rightarrow> Done (if \<not> b then clearLegalName s2 else s2)))
                 else Done s1)
          else Done s)"

subsection \<open>Comprehensive search\<close>

fun search_visited :: "'w ctx \<Rightarrow> visited_page list \<Rightarrow> 'w audit \<Rightarrow> 'w run" where
  "search_visited C [] s = Done s"
| "search_visited C (v # vs) s =
     (case containsLegalName (rx C) (vp_pageText v) (name C) of
        Inl e \<Rightarrow> Threw e s
      | Inr b \<Rightarrow>
          if b then Done (setLegalName (Some (vp_url v)) s)
          else search_visited C vs s)"

definition search_homepage :: "'w ctx \<Rightarrow> 'w audit \<Rightarrow> 'w run" where
  "search_homepage C s =
     (if legalNamePresent (result s) = LN_false then
        (case bodyText (pg C) (snd (safeGoto (pg C) (site C) s)) of
           Inl (e, s2) \<Rightarrow> Threw e s2
         | Inr (homepageText, s2) \<Rightarrow>
             (case containsLegalName (rx C) homepageText (name C) of
                Inl e \<Rightarrow> Threw e s2
              | Inr b \<Rightarrow> Done (if b then setLegalName (Some (site C)) s2 else s2)))
      else Done s)"

text \<open>The loop \<^verbatim>\<open>for (const link of relevantLinks.slice(0, 2))\<close>.\<close>

fun other_links :: "'w ctx \<Rightarrow> link list \<Rightarrow> 'w audit \<Rightarrow> 'w run" where
  "other_links C [] s = Done s"
| "other_links C (l # ls) s =
     (case safeGoto (pg C) (link_href l) s of
        (ok, s1) \<Rightarrow>
          if \<not> ok then other_links C ls s1
          else
            (case bodyText (pg C) s1 of
               Inl (e, s2) \<Rightarrow> Threw e s2
             | Inr (t, s2) \<Rightarrow>
                 (case containsLegalName (rx C) t (name C) of
                    Inl e \<Rightarrow> Threw e s2
                  | Inr b \<Rightarrow>
                      if b then Done (setLegalName (Some (link_href l)) s2)
                      else
                        let s3 = snd (safeGoto (pg C) (site C) s2)
                        in if legalNamePresent (result s3) = LN_true then Done s3
                           else other_links C ls s3)))"

definition otherPages :: "string list" where
  "otherPages = [''contact'', ''about'', ''info'', ''us'', ''company'']"

definition relevantLinks :: "link list \<Rightarrow> string \<Rightarrow> link list" where
  "relevantLinks links pageType =
     filter (\<lambda>l. str_includes (link_text l) pageType \<and> link_href l \<noteq> []) links"

fun other_pages :: "'w ctx \<Rightarrow> link list \<Rightarrow> string list \<Rightarrow> 'w audit \<Rightarrow> 'w run" where
  "other_pages C links [] s = Done s"
| "other_pages C links (pageType # rest) s =
     (case other_links C (take 2 (relevantLinks links pageType)) s of
        Threw e s' \<Rightarrow> Threw e s'
      | Done s' \<Rightarrow>
          if legalNamePresent (result s') = LN_true then Done s'
          else other_pages C links rest s')"

definition comprehensive_search :: "'w ctx \<Rightarrow> link list \<Rightarrow> 'w audit \<Rightarrow> 'w run" where
  "comprehensive_search C links s =
     (if isProprietorEntity C \<and> legalNamePresent (result s) = LN_false \<and> name C \<noteq> [] then
        (case search_visited C (visitedPages s) s of
           Threw e s1 \<Rightarrow> Threw e s1
         | Done s1 \<Rightarrow>
             (case search_homepage C s1 of
                Threw e s2 \<Rightarrow> Threw e s2
              | Done s2 \<Rightarrow>
                  if legalNamePresent (result s2) = LN_false
                  then other_pages C links otherPages s2
                  else Done s2))
      else Done s)"

subsection \<open>Final evaluation\<close>

definition markMissing :: "policy \<Rightarrow> audit_result \<Rightarrow> audit_result" where
  "markMissing p r =
     r\<lparr>missingPolicies := missingPolicies r @ [policy_key p],
       policies := (policies r)(p := (policies r p)\<lparr>status := MISSING\<rparr>)\<rparr>"

definition dropPageText :: "policy \<Rightarrow> audit_result \<Rightarrow> audit_result" where
  "dropPageText p r =
     (case pageText (policies r p) of
        Some (c # cs) \<Rightarrow> r\<lparr>policies := (policies r)(p := (policies r p)\<lparr>pageText := None\<rparr>)\<rparr>
      | _ \<Rightarrow> r)"

fun final_policies :: "merchant_type \<Rightarrow> policy list \<Rightarrow> audit_result \<Rightarrow> audit_result" where
  "final_policies mt [] r = r"
| "final_policies mt (p # ps) r =
     (if \<not> isPolicyRelevant p mt then final_policies mt ps r
      else
        final_policies mt ps
          (dropPageText p (if \<not> present (policies r p) then markMissing p r else r)))"

definition final_evaluation :: "'w ctx \<Rightarrow> audit_result \<Rightarrow> audit_result" where
  "final_evaluation C r0 =
     (let ORDER = POLICY_ORDER (mtype C);
          r1 = final_policies (mtype C) ORDER r0;
          r2 = (if isProprietorEntity C \<and> legalNamePresent r1 = LN_false \<and> name C \<noteq> []
                then r1\<lparr>missingPolicies := missingPolicies r1 @ [''legal name'']\<rparr> else r1);
          allRelevantPolicies = filter (\<lambda>p. isPolicyRelevant p (mtype C)) ORDER;
          foundRelevantPolicies = filter (\<lambda>p. present (policies r2 p)) allRelevantPolicies;
          r3 = r2\<lparr>allRelevantPoliciesMissing := (length foundRelevantPolicies = 0)\<rparr>;
          allRelevantPoliciesPresent =
            list_all (\<lambda>p. \<not> isPolicyRelevant p (mtype C) \<or> present (policies r3 p)) ORDER;
          legalNameOk = (\<not> isProprietorEntity C \<or> legalNamePresent r3 = LN_true)
      in if allRelevantPoliciesPresent \<and> legalNameOk then r3\<lparr>complianceStatus := PASS\<rparr> else r3)"

subsection \<open>The whole audit\<close>

definition initial_outcome :: "merchant_type \<Rightarrow> policy \<Rightarrow> policy_outcome" where
  "initial_outcome mt p =
     (if isPolicyRelevant p mt
      then \<lparr>present = False, url = None, pageText = None, status = MISSING\<rparr>
      else \<lparr>present = False, url = None, pageText = None, status = NOT_RELEVANT\<rparr>)"

definition initial_result :: "string \<Rightarrow> string \<Rightarrow> string \<Rightarrow> string \<Rightarrow> audit_result" where
  "initial_result web merchantTypeInput entity legalNameRaw =
     \<lparr>website = web,
      merchantType = merchantTypeInput,
      determinedMerchantType = determineMerchantType merchantTypeInput,
      entityType = entity,
      isProprietorshipField = isProprietorship entity,
      legalName = legalNameRaw,
      legalNamePresent = (if isProprietorship entity then LN_false else LN_not_relevant),
      legalNameURL = None,
      policies = initial_outcome (determineMerchantType merchantTypeInput),
      missingPolicies = [],
      allRelevantPoliciesMissing = False,
      complianceStatus = FAIL,
      error = None\<rparr>"

definition normalize_links :: "link list \<Rightarrow> link list" where
  "normalize_links rawLinks =
     map (\<lambda>l. \<lparr>link_text = normalize (link_text l), link_href = link_href l\<rparr>) rawLinks"

text \<open>The four passes, in the order of the \<^verbatim>\<open>try\<close> block, after the links are read.\<close>

definition passes :: "'w ctx \<Rightarrow> link list \<Rightarrow> 'w audit \<Rightarrow> 'w run" where
  "passes C links s =
     (case primary_pass C links (POLICY_ORDER (mtype C)) s of
        Threw e s1 \<Rightarrow> Threw e s1
      | Done s1 \<Rightarrow>
          (case group_resolution C s1 of
             Threw e s2 \<Rightarrow> Threw e s2
           | Done s2 \<Rightarrow>
               (case verification_step C s2 of
                  Threw e s3 \<Rightarrow> Threw e s3
                | Done s3 \<Rightarrow> comprehensive_search C links s3)))"

definition caught :: "js_error \<Rightarrow> 'w audit \<Rightarrow> 'w audit" where
  "caught e s = s\<lparr>result := (result s)\<lparr>error := Some (message e)\<rparr>\<rparr>"

definition mk_ctx ::
  "regexp_engine \<Rightarrow> 'w page \<Rightarrow> string \<Rightarrow> string \<Rightarrow> string \<Rightarrow> string \<Rightarrow> 'w ctx" where
  "mk_ctx R P web merchantTypeInput entity legalNameRaw =
     \<lparr>rx = R, pg = P, site = web, mtype = determineMerchantType merchantTypeInput,
      isProprietorEntity = isProprietorship entity, name = legalNameRaw\<rparr>"

definition initial_audit :: "string \<Rightarrow> string \<Rightarrow> string \<Rightarrow> string \<Rightarrow> 'w \<Rightarrow> 'w audit" where
  "initial_audit web merchantTypeInput entity legalNameRaw w =
     \<lparr>result = initial_result web merchantTypeInput entity legalNameRaw,
      world = w, visitedPages = [], navigations = [], collections = 0\<rparr>"

text \<open>
  \<open>audit\<close> is \<^verbatim>\<open>checkWebsite\<close> with the state it ends in; \<open>checkWebsite\<close> is the object the
  program returns.
\<close>

definition run_audit ::
  "regexp_engine \<Rightarrow> 'w page \<Rightarrow> string \<Rightarrow> string \<Rightarrow> string \<Rightarrow> string \<Rightarrow> 'w \<Rightarrow> 'w audit" where
  "run_audit R P web merchantTypeInput entity legalNameRaw w =
     (let C = mk_ctx R P web merchantTypeInput entity legalNameRaw;
          s0 = initial_audit web merchantTypeInput entity legalNameRaw w
      in (case safeGoto P web s0 of
            (ok, s1) \<Rightarrow>
              if \<not> ok then s1\<lparr>result := (result s1)\<lparr>error := Some ''Failed to load website''\<rparr>\<rparr>
              else
                (case page_eval_links P (world s1) of
                   (Inl e, w2) \<Rightarrow> caught e (s1\<lparr>world := w2\<rparr>)
                 | (Inr rawLinks, w2) \<Rightarrow>
                     (case passes C (normalize_links rawLinks) (s1\<lparr>world := w2\<rparr>) of
                        Threw e s' \<Rightarrow> caught e s'
                      | Done s' \<Rightarrow> s'\<lparr>result := final_evaluation C (result s')\<rparr>))))"

definition checkWebsite ::
  "regexp_engine \<Rightarrow> 'w page \<Rightarrow> string \<Rightarrow> string \<Rightarrow> string \<Rightarrow> string \<Rightarrow> 'w \<Rightarrow> audit_result" where
  "checkWebsite R P web merchantTypeInput entity legalNameRaw w =
     result (run_audit R P web merchantTypeInput entity legalNameRaw w)"

text \<open>
  The report column of the main loop:
  \<^verbatim>\<open>data[i].ManualCheckingRequired = result.allRelevantPoliciesMissing ? "YES" : "NO"\<close>
\<close>

definition ManualCheckingRequired :: "audit_result \<Rightarrow> string" where
  "ManualCheckingRequired r = (if allRelevantPoliciesMissing r then ''YES'' else ''NO'')"

section \<open>Invariants and example sites\<close>

text \<open>The state a step of the audit ends in, completed or not.\<close>

fun final_state :: "'w run \<Rightarrow> 'w audit" where
  "final_state (Done s) = s"
| "final_state (Threw e s) = s"

text \<open>
  \<open>frame C r r'\<close>: what the four passes may change between the result \<open>r\<close> and a later
  result \<open>r'\<close>. The missing items, the verdict, the manual review flag and the error are
  untouched; an outcome is untouched or is the \<open>FOUND\<close> outcome of a relevant policy; the
  legal name's presence changes only for a proprietorship, between true and false, and
  is true only when a legal name was supplied.
\<close>

definition frame :: "'w ctx \<Rightarrow> audit_result \<Rightarrow> audit_result \<Rightarrow> bool" where
  "frame C r r' =
     (missingPolicies r' = missingPolicies r \<and>
      complianceStatus r' = complianceStatus r \<and>
      allRelevantPoliciesMissing r' = allRelevantPoliciesMissing r \<and>
      error r' = error r \<and>
      (\<forall>p. policies r' p = policies r p \<or>
           (isPolicyRelevant p (mtype C) \<and> present (policies r' p) \<and>
            status (policies r' p) = FOUND)) \<and>
      (legalNamePresent r' = legalNamePresent r \<or>
       (isProprietorEntity C \<and> legalNamePresent r \<noteq> LN_not_relevant \<and>
        legalNamePresent r' \<noteq> LN_not_relevant \<and>
        (legalNamePresent r' = LN_true \<longrightarrow> name C \<noteq> []))))"

text \<open>
  A site that does not change: the text of the body of each page that loads, and the
  anchors read on the homepage. The browser's state is the address of the page it shows;
  a navigation to any other address rejects and leaves the page shown.
\<close>

definition static_site :: "(string \<times> string) list \<Rightarrow> link list \<Rightarrow> string page" where
  "static_site bodies anchors =
     \<lparr>page_goto = (\<lambda>u w. case map_of bodies u of
                            None \<Rightarrow> (Inl (JsError ''net::ERR_NAME_NOT_RESOLVED''), w)
                          | Some _ \<Rightarrow> (Inr (), u)),
      page_eval_links = (\<lambda>w. (Inr anchors, w)),
      page_textContent = (\<lambda>w. (Inr (map_of bodies w), w))\<rparr>"

text \<open>An engine whose patterns never match, for audits that never look for a legal name.\<close>

definition no_engine :: regexp_engine where
  "no_engine src subject = Inr False"

text \<open>
  A studio with a privacy, a terms and a refund page; the refund page also speaks of
  cancelling. And a site with nothing on it.
\<close>

definition services_site :: "string page" where
  "services_site = static_site
     [(''shop.test'', ''Welcome to our studio''),
      (''shop.test/privacy'', ''Privacy Policy: what we store''),
      (''shop.test/terms'', ''Terms of Service''),
      (''shop.test/refund'', ''Refund policy. To cancel a booking, write to us.'')]
     [\<lparr>link_text = ''Privacy'', link_href = ''shop.test/privacy''\<rparr>,
      \<lparr>link_text = ''Terms'', link_href = ''shop.test/terms''\<rparr>,
      \<lparr>link_text = ''Refunds'', link_href = ''shop.test/refund''\<rparr>]"

definition bare_site :: "string page" where
  "bare_site = static_site [(''bare.test'', ''Under construction'')] []"

text \<open>
  The status of an outcome says whether its policy applies to the merchant type.
\<close>

definition status_invariant :: "merchant_type \<Rightarrow> audit_result \<Rightarrow> bool" where
  "status_invariant mt r =
     (\<forall>p. (status (policies r p) = NOT_RELEVANT) = (\<not> isPolicyRelevant p mt))"

text \<open>A services merchant's audit of \<open>services_site\<close>, after the primary pass.\<close>

definition services_ctx :: "string ctx" where
  "services_ctx = mk_ctx no_engine services_site ''shop.test'' ''services'' ''private limited'' ''Acme''"

definition services_links :: "link list" where
  "services_links = normalize_links
     [\<lparr>link_text = ''Privacy'', link_href = ''shop.test/privacy''\<rparr>,
      \<lparr>link_text = ''Terms'', link_href = ''shop.test/terms''\<rparr>,
      \<lparr>link_text = ''Refunds'', link_href = ''shop.test/refund''\<rparr>]"

definition services_after_primary :: "string audit" where
  "services_after_primary =
     final_state (primary_pass services_ctx services_links (POLICY_ORDER Services)
       (snd (safeGoto services_site ''shop.test''
          (initial_audit ''shop.test'' ''services'' ''private limited'' ''Acme'' []))))"

text \<open>What was found stays found, at the same address.\<close>

definition keeps_found :: "audit_result \<Rightarrow> audit_result \<Rightarrow> bool" where
  "keeps_found r r' =
     (\<forall>p. present (policies r p) \<longrightarrow>
          present (policies r' p) \<and> url (policies r' p) = url (policies r p))"

text \<open>The state of an audit once the homepage is loaded and its links are read.\<close>

definition loaded_audit :: "string \<Rightarrow> string \<Rightarrow> string \<Rightarrow> string \<Rightarrow> 'w \<Rightarrow> 'w audit" where
  "loaded_audit web merchantTypeInput entity legalNameRaw w =
     (initial_audit web merchantTypeInput entity legalNameRaw w)\<lparr>navigations := [web]\<rparr>"

text \<open>
  A shop whose first privacy link is dead, audited for a proprietorship whose legal name
  has an opening parenthesis.
\<close>

definition flaky_site :: "string page" where
  "flaky_site = static_site
     [(''shop.test'', ''Welcome to the shop''),
      (''shop.test/privacy'', ''Privacy Policy of Acme Traders'')]
     [\<lparr>link_text = ''Privacy (old)'', link_href = ''shop.test/privacy-old''\<rparr>,
      \<lparr>link_text = ''Privacy policy'', link_href = ''shop.test/privacy''\<rparr>]"

definition flaky_links :: "link list" where
  "flaky_links =
     [\<lparr>link_text = ''privacy (old)'', link_href = ''shop.test/privacy-old''\<rparr>,
      \<lparr>link_text = ''privacy policy'', link_href = ''shop.test/privacy''\<rparr>]"

definition flaky_ctx :: "string ctx" where
  "flaky_ctx = mk_ctx (RegExp_i_test no_engine) flaky_site ''shop.test'' ''goods'' ''proprietor''
     ''Acme (Traders''"

definition flaky_start :: "string audit" where
  "flaky_start = loaded_audit ''shop.test'' ''goods'' ''proprietor'' ''Acme (Traders'' ''shop.test''"

fun thrown :: "'w run \<Rightarrow> js_error option" where
  "thrown (Done s) = None"
| "thrown (Threw e s) = Some e"

text \<open>A site whose anchors cannot be read.\<close>

definition broken_site :: "string page" where
  "broken_site =
     (static_site [(''shop.test'', ''Welcome'')] [])
       \<lparr>page_eval_links := (\<lambda>w. (Inl (JsError ''Execution context was destroyed''), w))\<rparr>"

text \<open>
  A shop with two privacy links: the page of the first does not satisfy the policy, the
  page of the second does.
\<close>

definition fallback_site :: "string page" where
  "fallback_site = static_site
     [(''shop.test'', ''Welcome to the shop''),
      (''shop.test/privacy-app'', ''Your privacy matters to us''),
      (''shop.test/privacy'', ''Privacy Policy: what we store'')]
     [\<lparr>link_text = ''Privacy'', link_href = ''shop.test/privacy-app''\<rparr>,
      \<lparr>link_text = ''Privacy Policy'', link_href = ''shop.test/privacy''\<rparr>]"

definition fallback_links :: "link list" where
  "fallback_links =
     [\<lparr>link_text = ''privacy'', link_href = ''shop.test/privacy-app''\<rparr>,
      \<lparr>link_text = ''privacy policy'', link_href = ''shop.test/privacy''\<rparr>]"

definition fallback_ctx :: "string ctx" where
  "fallback_ctx = mk_ctx no_engine fallback_site ''shop.test'' ''goods'' ''private limited'' []"

definition fallback_start :: "string audit" where
  "fallback_start = loaded_audit ''shop.test'' ''goods'' ''private limited'' [] ''shop.test''"

definition fallback_primary :: "string run" where
  "fallback_primary = primary_pass fallback_ctx fallback_links (POLICY_ORDER Goods) fallback_start"

text \<open>The audit of \<open>fallback_site\<close> after the page of the first privacy link is stored.\<close>

definition fallback_stored :: "string audit" where
  "fallback_stored =
     fallback_start
       \<lparr>world := ''shop.test/privacy-app'',
        visitedPages :=
          [\<lparr>vp_url = ''shop.test/privacy-app'', vp_pageText = ''your privacy matters to us'',
            vp_policyType = Privacy\<rparr>],
        navigations := [''shop.test'', ''shop.test/privacy-app'']\<rparr>"

text \<open>
  Occurrences of a string in a text, by position: \<open>k\<close> occurs at \<open>i\<close>, \<open>i\<close> is the place of
  its first occurrence, \<open>i\<close> is the place of its last.
\<close>

definition occurs_at :: "string \<Rightarrow> string \<Rightarrow> nat \<Rightarrow> bool" where
  "occurs_at t k i = (i \<le> length t \<and> starts_with (drop i t) k)"

definition is_first_occurrence :: "string \<Rightarrow> string \<Rightarrow> nat \<Rightarrow> bool" where
  "is_first_occurrence t k i = (occurs_at t k i \<and> (\<forall>j<i. \<not> occurs_at t k j))"

definition is_last_occurrence :: "string \<Rightarrow> string \<Rightarrow> nat \<Rightarrow> bool" where
  "is_last_occurrence t k i = (occurs_at t k i \<and> (\<forall>j>i. \<not> occurs_at t k j))"

text \<open>The reference engine, with nothing behind it.\<close>

definition reference_engine :: regexp_engine where
  "reference_engine = RegExp_i_test no_engine"

definition john_doe_page :: "nat \<Rightarrow> string" where
  "john_doe_page n = ''John'' @ replicate n CHR ''.'' @ ''Doe''"

section \<open>The code units\<close>

lemma is_space_code_unit:
  "is_space c \<longleftrightarrow> code_unit c \<in> {9, 10, 11, 12, 13, 32, 160}"
proof (cases c)
  case (Char b0 b1 b2 b3 b4 b5 b6 b7)
  then show ?thesis
    by (cases b0; cases b1; cases b2; cases b3; cases b4; cases b5; cases b6; cases b7)
       (simp_all add: code_unit_def)
qed

lemma is_word_char_code_unit:
  "is_word_char c \<longleftrightarrow>
     (48 \<le> code_unit c \<and> code_unit c \<le> 57) \<or> (65 \<le> code_unit c \<and> code_unit c \<le> 90) \<or>
     code_unit c = 95 \<or> (97 \<le> code_unit c \<and> code_unit c \<le> 122)"
proof (cases c)
  case (Char b0 b1 b2 b3 b4 b5 b6 b7)
  then show ?thesis
    by (cases b0; cases b1; cases b2; cases b3; cases b4; cases b5; cases b6; cases b7)
       (simp_all add: code_unit_def)
qed

lemma lower_char_code_unit:
  "code_unit (lower_char c) =
     (if (65 \<le> code_unit c \<and> code_unit c \<le> 90) \<or>
         (192 \<le> code_unit c \<and> code_unit c \<le> 222 \<and> code_unit c \<noteq> 215)
      then code_unit c + 32 else code_unit c)"
proof (cases c)
  case (Char b0 b1 b2 b3 b4 b5 b6 b7)
  then show ?thesis
    by (cases b0; cases b1; cases b2; cases b3; cases b4; cases b5; cases b6; cases b7)
       (simp_all add: code_unit_def)
qed

lemma is_digit_code_unit:
  "is_digit c \<longleftrightarrow> 48 \<le> code_unit c \<and> code_unit c \<le> 57"
proof (cases c)
  case (Char b0 b1 b2 b3 b4 b5 b6 b7)
  then show ?thesis
    by (cases b0; cases b1; cases b2; cases b3; cases b4; cases b5; cases b6; cases b7)
       (simp_all add: code_unit_def)
qed

section \<open>What the passes leave unchanged\<close>

lemma frame_refl: "frame C r r"
  by (simp add: frame_def)

lemma frame_trans: "frame C r r' \<Longrightarrow> frame C r' r'' \<Longrightarrow> frame C r r''"
  unfolding frame_def by (elim conjE, intro conjI; metis)

lemma safeGoto_result: "result (snd (safeGoto P u s)) = result s"
  by (simp add: safeGoto_def split: prod.splits)

lemma safeGoto_result': "safeGoto P u s = (ok, s') \<Longrightarrow> result s' = result s"
  using safeGoto_result[of P u s] by simp

lemma bodyText_result:
  "bodyText P s = Inr (t, s') \<Longrightarrow> result s' = result s"
  "bodyText P s = Inl (e, s') \<Longrightarrow> result s' = result s"
  by (auto simp: bodyText_def split: prod.splits sum.splits)

lemma frame_setFound:
  "isPolicyRelevant p (mtype C) \<Longrightarrow> frame C r (result s) \<Longrightarrow> frame C r (result (setFound p u t s))"
  by (rule frame_trans, assumption) (simp add: frame_def setFound_def)

lemma frame_setLegalName:
  "isProprietorEntity C \<Longrightarrow> name C \<noteq> [] \<Longrightarrow> legalNamePresent (result s) \<noteq> LN_not_relevant \<Longrightarrow>
   frame C r (result s) \<Longrightarrow> frame C r (result (setLegalName u s))"
  by (rule frame_trans, assumption) (simp add: frame_def setLegalName_def)

lemma frame_clearLegalName:
  "isProprietorEntity C \<Longrightarrow> legalNamePresent (result s) \<noteq> LN_not_relevant \<Longrightarrow>
   frame C r (result s) \<Longrightarrow> frame C r (result (clearLegalName s))"
  by (rule frame_trans, assumption) (simp add: frame_def clearLegalName_def)

lemma frame_noteLegalName:
  "frame C r (result s) \<Longrightarrow> frame C r (result (final_state (noteLegalName C t u s)))"
  by (auto simp: noteLegalName_def frame_setLegalName split: sum.splits)

lemma frame_primary_links:
  "isPolicyRelevant p (mtype C) \<Longrightarrow> frame C r (result s) \<Longrightarrow>
   frame C r (result (final_state (primary_links C p ls s)))"
proof (induction ls arbitrary: s)
  case Nil
  then show ?case by simp
next
  case (Cons l ls)
  show ?case
  proof (cases "link_href l = [] \<or> link_text l = [] \<or> \<not> containsAny (link_text l) (anchorHints p)")
    case True
    then show ?thesis using Cons by auto
  next
    case False
    obtain ok s1 where g: "safeGoto (pg C) (link_href l) s = (ok, s1)" by force
    have r1: "result s1 = result s" using safeGoto_result'[OF g] .
    show ?thesis
    proof (cases ok)
      case False
      then show ?thesis using \<open>\<not> (link_href l = [] \<or> link_text l = [] \<or> \<not> containsAny (link_text l) (anchorHints p))\<close> g Cons r1 by simp
    next
      case True
      note ok = this
      show ?thesis
      proof (cases "bodyText (pg C) s1")
        case (Inl a)
        then obtain e s2 where a: "a = (e, s2)" by force
        then show ?thesis using Inl False g ok Cons.prems r1 bodyText_result(2)[of "pg C" s1 e s2] by simp
      next
        case (Inr b)
        then obtain t s2 where b: "b = (t, s2)" by force
        have r2: "result s2 = result s" using bodyText_result(1)[of "pg C" s1 t s2] Inr b r1 by simp
        define s3 where "s3 = s2\<lparr>visitedPages := visitedPages s2 @ [\<lparr>vp_url = link_href l, vp_pageText = t, vp_policyType = p\<rparr>]\<rparr>"
        have r3: "result s3 = result s" by (simp add: s3_def r2)
        show ?thesis
        proof (cases "containsAny t (pageKeywords p)")
          case True
          have f: "frame C r (result (final_state (noteLegalName C t (Some (link_href l)) (setFound p (Some (link_href l)) (Some t) s3))))"
            by (rule frame_noteLegalName, rule frame_setFound) (use Cons.prems r3 in auto)
          show ?thesis using False g ok Inr b True f
            by (auto simp add: s3_def[symmetric] Let_def safeGoto_result split: run.splits)
        next
          case nk: False
          show ?thesis using False g ok Inr b nk Cons.IH[of s3] Cons.prems r3
            by (simp add: s3_def[symmetric] Let_def)
        qed
      qed
    qed
  qed
qed


lemma run_case_inv:
  "Q (final_state m) \<Longrightarrow> (\<And>s'. m = Done s' \<Longrightarrow> Q s' \<Longrightarrow> Q (final_state (k s'))) \<Longrightarrow>
   Q (final_state (case m of Done s' \<Rightarrow> k s' | Threw e s' \<Rightarrow> Threw e s'))"
  by (cases m) auto

lemma frame_primary_pass:
  "frame C r (result s) \<Longrightarrow> frame C r (result (final_state (primary_pass C links ps s)))"
proof (induction ps arbitrary: s)
  case Nil
  then show ?case by simp
next
  case (Cons p ps)
  show ?case
  proof (cases "isPolicyRelevant p (mtype C)")
    case False
    then show ?thesis using Cons by simp
  next
    case True
    have "frame C r (result (final_state (case primary_links C p links s of
            Done s' \<Rightarrow> primary_pass C links ps s' | Threw e s' \<Rightarrow> Threw e s')))"
      by (rule run_case_inv[where Q="\<lambda>s. frame C r (result s)"])
         (use True Cons in \<open>auto intro: frame_primary_links\<close>)
    then show ?thesis using True by simp
  qed
qed

lemma frame_group_sources:
  "isPolicyRelevant p (mtype C) \<Longrightarrow> frame C r (result s) \<Longrightarrow>
   frame C r (result (final_state (group_sources C p srcs s)))"
  by (induction srcs arbitrary: s)
     (auto simp: frame_noteLegalName frame_setFound split: option.splits)

lemma frame_group_policies:
  "frame C r (result s) \<Longrightarrow> frame C r (result (final_state (group_policies C srcs ps s)))"
proof (induction ps arbitrary: s)
  case Nil
  then show ?case by simp
next
  case (Cons p ps)
  show ?case
  proof (cases "\<not> isPolicyRelevant p (mtype C) \<or> present (policies (result s) p)")
    case True
    then show ?thesis using Cons by auto
  next
    case False
    have "frame C r (result (final_state (case group_sources C p srcs s of
            Done s' \<Rightarrow> group_policies C srcs ps s' | Threw e s' \<Rightarrow> Threw e s')))"
      by (rule run_case_inv[where Q="\<lambda>s. frame C r (result s)"])
         (use False Cons in \<open>auto intro: frame_group_sources\<close>)
    then show ?thesis using False by simp
  qed
qed

lemma frame_group_rounds:
  "frame C r (result s) \<Longrightarrow> frame C r (result (final_state (group_rounds C G k s)))"
proof (induction k arbitrary: s)
  case 0
  then show ?case by simp
next
  case (Suc k)
  define s1 where "s1 = s\<lparr>collections := Suc (collections s)\<rparr>"
  have r1: "frame C r (result s1)" using Suc.prems by (simp add: s1_def)
  have "frame C r (result (final_state (case group_policies C (presentSources G s1) G s1 of
            Done s' \<Rightarrow> group_rounds C G k s' | Threw e s' \<Rightarrow> Threw e s')))"
    by (rule run_case_inv[where Q="\<lambda>s. frame C r (result s)"])
       (use r1 Suc.IH in \<open>auto intro: frame_group_policies\<close>)
  then show ?case using r1 by (simp add: s1_def[symmetric] Let_def)
qed

lemma frame_group_resolution:
  "frame C r (result s) \<Longrightarrow> frame C r (result (final_state (group_resolution C s)))"
  by (simp add: group_resolution_def frame_group_rounds)

lemma frame_verification_step:
  "frame C r (result s) \<Longrightarrow> frame C r (result (final_state (verification_step C s)))"
  by (auto simp: verification_step_def frame_clearLegalName
      dest!: safeGoto_result' bodyText_result
      split: option.splits prod.splits sum.splits)

lemma frame_search_visited:
  "isProprietorEntity C \<Longrightarrow> name C \<noteq> [] \<Longrightarrow> legalNamePresent (result s) \<noteq> LN_not_relevant \<Longrightarrow>
   frame C r (result s) \<Longrightarrow> frame C r (result (final_state (search_visited C vs s)))"
  by (induction vs arbitrary: s) (auto simp: frame_setLegalName split: sum.splits)


lemma frame_search_homepage:
  "isProprietorEntity C \<Longrightarrow> name C \<noteq> [] \<Longrightarrow>
   frame C r (result s) \<Longrightarrow> frame C r (result (final_state (search_homepage C s)))"
  by (auto simp: search_homepage_def frame_setLegalName safeGoto_result
      dest!: bodyText_result split: sum.splits prod.splits)

lemma frame_other_links:
  "isProprietorEntity C \<Longrightarrow> name C \<noteq> [] \<Longrightarrow> legalNamePresent (result s) = LN_false \<Longrightarrow>
   frame C r (result s) \<Longrightarrow> frame C r (result (final_state (other_links C ls s)))"
proof (induction ls arbitrary: s)
  case Nil
  then show ?case by simp
next
  case (Cons l ls)
  obtain ok s1 where g: "safeGoto (pg C) (link_href l) s = (ok, s1)" by force
  have r1: "result s1 = result s" using safeGoto_result'[OF g] .
  show ?case
  proof (cases ok)
    case False
    then show ?thesis using g Cons r1 by simp
  next
    case True
    show ?thesis
    proof (cases "bodyText (pg C) s1")
      case (Inl a)
      then show ?thesis using g True Cons.prems r1 bodyText_result(2)[of "pg C" s1 "fst a" "snd a"]
        by (auto split: prod.splits)
    next
      case (Inr b)
      obtain t s2 where b: "b = (t, s2)" by force
      have r2: "result s2 = result s" using bodyText_result(1)[of "pg C" s1 t s2] Inr b r1 by simp
      define s3 where "s3 = snd (safeGoto (pg C) (site C) s2)"
      have r3: "result s3 = result s" by (simp add: s3_def safeGoto_result r2)
      show ?thesis using g True Inr b Cons.prems r2 r3 Cons.IH[of s3]
        by (auto simp: s3_def[symmetric] Let_def frame_setLegalName split: sum.splits)
    qed
  qed
qed

lemma other_links_lnp:
  "legalNamePresent (result s) = LN_false \<Longrightarrow>
   legalNamePresent (result (final_state (other_links C ls s))) \<noteq> LN_not_relevant"
proof (induction ls arbitrary: s)
  case Nil
  then show ?case by simp
next
  case (Cons l ls)
  obtain ok s1 where g: "safeGoto (pg C) (link_href l) s = (ok, s1)" by force
  have r1: "result s1 = result s" using safeGoto_result'[OF g] .
  show ?case
  proof (cases ok)
    case False
    then show ?thesis using g Cons r1 by simp
  next
    case True
    show ?thesis
    proof (cases "bodyText (pg C) s1")
      case (Inl a)
      then show ?thesis using g True Cons.prems r1 bodyText_result(2)[of "pg C" s1 "fst a" "snd a"]
        by (auto split: prod.splits)
    next
      case (Inr b)
      obtain t s2 where b: "b = (t, s2)" by force
      have r2: "result s2 = result s" using bodyText_result(1)[of "pg C" s1 t s2] Inr b r1 by simp
      define s3 where "s3 = snd (safeGoto (pg C) (site C) s2)"
      have r3: "result s3 = result s" by (simp add: s3_def safeGoto_result r2)
      show ?thesis using g True Inr b Cons.prems r2 r3 Cons.IH[of s3]
        by (auto simp: s3_def[symmetric] Let_def setLegalName_def split: sum.splits)
    qed
  qed
qed

lemma frame_other_pages:
  "isProprietorEntity C \<Longrightarrow> name C \<noteq> [] \<Longrightarrow> legalNamePresent (result s) = LN_false \<Longrightarrow>
   frame C r (result s) \<Longrightarrow> frame C r (result (final_state (other_pages C links pts s)))"
proof (induction pts arbitrary: s)
  case Nil
  then show ?case by simp
next
  case (Cons pt pts)
  let ?m = "other_links C (take 2 (relevantLinks links pt)) s"
  have f: "frame C r (result (final_state ?m))"
    using Cons.prems by (intro frame_other_links) auto
  have n: "legalNamePresent (result (final_state ?m)) \<noteq> LN_not_relevant"
    using Cons.prems by (intro other_links_lnp) auto
  show ?case
  proof (cases ?m)
    case (Threw e s')
    then show ?thesis using f by simp
  next
    case (Done s')
    show ?thesis
    proof (cases "legalNamePresent (result s')")
      case LN_true
      then show ?thesis using Done f by simp
    next
      case LN_false
      then show ?thesis using Done f Cons.IH[of s'] Cons.prems by simp
    next
      case LN_not_relevant
      then show ?thesis using Done n by simp
    qed
  qed
qed

lemma lnp_kept:
  "frame C r r' \<Longrightarrow> legalNamePresent r \<noteq> LN_not_relevant \<Longrightarrow> legalNamePresent r' \<noteq> LN_not_relevant"
  by (auto simp: frame_def)

lemma frame_comprehensive_search:
  "frame C r (result s) \<Longrightarrow> frame C r (result (final_state (comprehensive_search C links s)))"
proof (cases "isProprietorEntity C \<and> legalNamePresent (result s) = LN_false \<and> name C \<noteq> []")
  case False
  assume "frame C r (result s)"
  then show ?thesis using False by (auto simp: comprehensive_search_def)
next
  case True
  assume fr: "frame C r (result s)"
  let ?m1 = "search_visited C (visitedPages s) s"
  have f1: "frame C r (result (final_state ?m1))"
    using True fr by (intro frame_search_visited) auto
  show ?thesis
  proof (cases ?m1)
    case (Threw e s1)
    then show ?thesis using True f1 by (simp add: comprehensive_search_def)
  next
    case (Done s1)
    let ?m2 = "search_homepage C s1"
    have f2: "frame C r (result (final_state ?m2))"
      using True f1 Done by (intro frame_search_homepage) auto
    show ?thesis
    proof (cases ?m2)
      case (Threw e s2)
      then show ?thesis using True Done f2 by (simp add: comprehensive_search_def)
    next
      case d2: (Done s2)
      show ?thesis
        using True Done d2 f2 frame_other_pages[of C s2 r links otherPages]
        by (simp add: comprehensive_search_def)
    qed
  qed
qed

lemma frame_passes:
  "frame C r (result s) \<Longrightarrow> frame C r (result (final_state (passes C links s)))"
  unfolding passes_def
  by (intro run_case_inv[where Q="\<lambda>s. frame C r (result s)"]
        frame_primary_pass frame_group_resolution frame_verification_step
        frame_comprehensive_search)

section \<open>Final evaluation\<close>

lemma relevant_iff_ORDER: "isPolicyRelevant p mt \<longleftrightarrow> p \<in> set (POLICY_ORDER mt)"
  by (cases p; cases mt) (simp_all add: isPolicyRelevant_def)

lemma distinct_ORDER: "distinct (POLICY_ORDER mt)"
  by (cases mt) simp_all

lemma policy_key_not_legal_name: "policy_key p \<noteq> ''legal name''"
  by (cases p) simp_all

lemma dropPageText_fields [simp]:
  "present (policies (dropPageText p r) q) = present (policies r q)"
  "status (policies (dropPageText p r) q) = status (policies r q)"
  "url (policies (dropPageText p r) q) = url (policies r q)"
  "missingPolicies (dropPageText p r) = missingPolicies r"
  "legalNamePresent (dropPageText p r) = legalNamePresent r"
  "complianceStatus (dropPageText p r) = complianceStatus r"
  "allRelevantPoliciesMissing (dropPageText p r) = allRelevantPoliciesMissing r"
  "error (dropPageText p r) = error r"
  by (auto simp: dropPageText_def split: option.splits list.splits)

lemma markMissing_fields [simp]:
  "present (policies (markMissing p r) q) = present (policies r q)"
  "status (policies (markMissing p r) q) = (if q = p then MISSING else status (policies r q))"
  "url (policies (markMissing p r) q) = url (policies r q)"
  "missingPolicies (markMissing p r) = missingPolicies r @ [policy_key p]"
  "legalNamePresent (markMissing p r) = legalNamePresent r"
  "complianceStatus (markMissing p r) = complianceStatus r"
  "allRelevantPoliciesMissing (markMissing p r) = allRelevantPoliciesMissing r"
  "error (markMissing p r) = error r"
  by (auto simp: markMissing_def)

lemma final_policies_fields [simp]:
  "present (policies (final_policies mt ps r) q) = present (policies r q)"
  "url (policies (final_policies mt ps r) q) = url (policies r q)"
  "legalNamePresent (final_policies mt ps r) = legalNamePresent r"
  "complianceStatus (final_policies mt ps r) = complianceStatus r"
  "allRelevantPoliciesMissing (final_policies mt ps r) = allRelevantPoliciesMissing r"
  "error (final_policies mt ps r) = error r"
  by (induction ps arbitrary: r; simp)+

lemma final_policies_missing:
  "missingPolicies (final_policies mt ps r) =
   missingPolicies r @
   map policy_key (filter (\<lambda>p. isPolicyRelevant p mt \<and> \<not> present (policies r p)) ps)"
  by (induction ps arbitrary: r) auto

lemma final_policies_status:
  "status (policies (final_policies mt ps r) q) =
   (if q \<in> set ps \<and> isPolicyRelevant q mt \<and> \<not> present (policies r q) then MISSING
    else status (policies r q))"
  by (induction ps arbitrary: r) auto

lemma final_evaluation_present [simp]:
  "present (policies (final_evaluation C r) q) = present (policies r q)"
  by (simp add: final_evaluation_def Let_def)

lemma final_evaluation_lnp [simp]:
  "legalNamePresent (final_evaluation C r) = legalNamePresent r"
  by (simp add: final_evaluation_def Let_def)

lemma final_evaluation_error [simp]:
  "error (final_evaluation C r) = error r"
  by (simp add: final_evaluation_def Let_def)

lemma final_evaluation_status:
  "status (policies (final_evaluation C r) q) =
   (if isPolicyRelevant q (mtype C) \<and> \<not> present (policies r q) then MISSING
    else status (policies r q))"
  by (auto simp: final_evaluation_def Let_def final_policies_status relevant_iff_ORDER)

lemma final_evaluation_missing:
  "missingPolicies (final_evaluation C r) =
   missingPolicies r @
   map policy_key (filter (\<lambda>p. \<not> present (policies r p)) (POLICY_ORDER (mtype C))) @
   (if isProprietorEntity C \<and> legalNamePresent r = LN_false \<and> name C \<noteq> []
    then [''legal name''] else [])"
proof -
  have "filter (\<lambda>p. isPolicyRelevant p (mtype C) \<and> \<not> present (policies r p)) (POLICY_ORDER (mtype C))
      = filter (\<lambda>p. \<not> present (policies r p)) (POLICY_ORDER (mtype C))"
    by (rule filter_cong) (auto simp: relevant_iff_ORDER)
  then show ?thesis
    by (simp add: final_evaluation_def Let_def final_policies_missing)
qed

lemma final_evaluation_allMissing:
  "allRelevantPoliciesMissing (final_evaluation C r) =
   (\<forall>p. isPolicyRelevant p (mtype C) \<longrightarrow> \<not> present (policies r p))"
  by (auto simp: final_evaluation_def Let_def filter_empty_conv relevant_iff_ORDER)

lemma final_evaluation_compliance:
  "complianceStatus (final_evaluation C r) =
   (if (\<forall>p. isPolicyRelevant p (mtype C) \<longrightarrow> present (policies r p)) \<and>
       (\<not> isProprietorEntity C \<or> legalNamePresent r = LN_true)
    then PASS else complianceStatus r)"
  by (auto simp: final_evaluation_def Let_def list_all_iff relevant_iff_ORDER)

lemma frame_initial_audit:
  "frame C (initial_result web mti ent ln) (result (initial_audit web mti ent ln w))"
  by (simp add: initial_audit_def frame_refl)

lemma checkWebsite_cases:
  fixes R P web mti ent ln w
  defines "C \<equiv> mk_ctx R P web mti ent ln"
  defines "r0 \<equiv> initial_result web mti ent ln"
  obtains
    (load_failed) e where "fst (page_goto P web w) = Inl e"
      "checkWebsite R P web mti ent ln w = r0\<lparr>error := Some ''Failed to load website''\<rparr>"
  | (thrown) e r' where "frame C r0 r'"
      "checkWebsite R P web mti ent ln w = r'\<lparr>error := Some (message e)\<rparr>"
  | (completed) r' where "frame C r0 r'"
      "checkWebsite R P web mti ent ln w = final_evaluation C r'"
proof -
  define s0 :: "'a audit" where "s0 = initial_audit web mti ent ln w"
  obtain ok s1 where g: "safeGoto P web s0 = (ok, s1)" by force
  have r1: "result s1 = r0" using safeGoto_result'[OF g] by (simp add: s0_def initial_audit_def r0_def)
  show thesis
  proof (cases ok)
    case False
    then obtain e where "fst (page_goto P web w) = Inl e"
      using g by (auto simp: safeGoto_def s0_def initial_audit_def split: prod.splits sum.splits)
    moreover have "checkWebsite R P web mti ent ln w = r0\<lparr>error := Some ''Failed to load website''\<rparr>"
      using g False r1 by (simp add: checkWebsite_def run_audit_def Let_def s0_def[symmetric])
    ultimately show thesis by (rule load_failed)
  next
    case True
    obtain x w2 where ev: "page_eval_links P (world s1) = (x, w2)" by force
    show thesis
    proof (cases x)
      case (Inl e)
      have "checkWebsite R P web mti ent ln w = r0\<lparr>error := Some (message e)\<rparr>"
        using g True ev Inl r1
        by (simp add: checkWebsite_def run_audit_def Let_def s0_def[symmetric] caught_def)
      then show thesis using thrown[of r0 e] by (simp add: frame_refl)
    next
      case (Inr rawLinks)
      define m where "m = passes C (normalize_links rawLinks) (s1\<lparr>world := w2\<rparr>)"
      have f: "frame C r0 (result (final_state m))"
        unfolding m_def by (rule frame_passes) (simp add: r1 frame_refl)
      show thesis
      proof (cases m)
        case (Done s')
        have "checkWebsite R P web mti ent ln w = final_evaluation C (result s')"
          using g True ev Inr Done
          by (simp add: checkWebsite_def run_audit_def Let_def s0_def[symmetric] m_def[symmetric] C_def[symmetric])
        then show thesis using completed[of "result s'"] f Done by simp
      next
        case (Threw e s')
        have "checkWebsite R P web mti ent ln w = (result s')\<lparr>error := Some (message e)\<rparr>"
          using g True ev Inr Threw
          by (simp add: checkWebsite_def run_audit_def Let_def s0_def[symmetric] m_def[symmetric] C_def[symmetric] caught_def)
        then show thesis using thrown[of "result s'" e] f Threw by simp
      qed
    qed
  qed
qed

section \<open>The verdict\<close>

text \<open>
  C10. When the navigation to the homepage fails, \<open>checkWebsite\<close> returns the result with
  the error \<^verbatim>\<open>Failed to load website\<close>, the verdict \<open>FAIL\<close> and every relevant policy
  \<open>MISSING\<close>; the final evaluation is skipped, so \<open>missingPolicies\<close> is empty,
  \<open>allRelevantPoliciesMissing\<close> is false and the report says \<^verbatim>\<open>NO\<close> for
  \<open>ManualCheckingRequired\<close>.
\<close>

theorem homepage_failure:
  assumes "fst (page_goto P web w) = Inl e"
  shows "error (checkWebsite R P web mti ent ln w) = Some ''Failed to load website'' \<and>
         complianceStatus (checkWebsite R P web mti ent ln w) = FAIL \<and>
         (\<forall>p. isPolicyRelevant p (determineMerchantType mti) \<longrightarrow>
              status (policies (checkWebsite R P web mti ent ln w) p) = MISSING) \<and>
         missingPolicies (checkWebsite R P web mti ent ln w) = [] \<and>
         \<not> allRelevantPoliciesMissing (checkWebsite R P web mti ent ln w) \<and>
         ManualCheckingRequired (checkWebsite R P web mti ent ln w) = ''NO''"
proof -
  obtain ok s1 where g: "safeGoto P web (initial_audit web mti ent ln w) = (ok, s1)"
    by force
  have nok: "\<not> ok"
    using assms g by (auto simp: safeGoto_def initial_audit_def split: prod.splits sum.splits)
  have r1: "result s1 = initial_result web mti ent ln"
    using safeGoto_result'[OF g] by (simp add: initial_audit_def)
  have "checkWebsite R P web mti ent ln w =
        (initial_result web mti ent ln)\<lparr>error := Some ''Failed to load website''\<rparr>"
    using g nok r1 by (simp add: checkWebsite_def run_audit_def Let_def)
  then show ?thesis
    by (simp add: initial_result_def initial_outcome_def ManualCheckingRequired_def)
qed

theorem homepage_failure_witness:
  "fst (page_goto bare_site ''gone.test'' []) = Inl (JsError ''net::ERR_NAME_NOT_RESOLVED'') \<and>
   error (checkWebsite no_engine bare_site ''gone.test'' ''goods'' ''proprietor'' ''John Doe'' [])
     = Some ''Failed to load website'' \<and>
   status (policies (checkWebsite no_engine bare_site ''gone.test'' ''goods'' ''proprietor'' ''John Doe'' []) Shipping)
     = MISSING \<and>
   missingPolicies (checkWebsite no_engine bare_site ''gone.test'' ''goods'' ''proprietor'' ''John Doe'' []) = [] \<and>
   ManualCheckingRequired (checkWebsite no_engine bare_site ''gone.test'' ''goods'' ''proprietor'' ''John Doe'' [])
     = ''NO''"
proof -
  have h: "fst (page_goto bare_site ''gone.test'' []) = Inl (JsError ''net::ERR_NAME_NOT_RESOLVED'')"
    by (simp add: bare_site_def static_site_def)
  have r: "isPolicyRelevant Shipping (determineMerchantType ''goods'')"
    by code_simp
  show ?thesis
    using h r homepage_failure[OF h, of no_engine "''goods''" "''proprietor''" "''John Doe''"]
    by simp
qed

text \<open>
  C2. For every audit that returns without an error, the verdict is \<open>PASS\<close> exactly when
  every policy relevant to the merchant type is present and the merchant is not a
  proprietorship or the legal name is present; otherwise it is \<open>FAIL\<close>; and with \<open>PASS\<close>
  \<open>missingPolicies\<close> is empty.
\<close>

theorem compliance_verdict:
  assumes "error (checkWebsite R P web mti ent ln w) = None"
  shows "((complianceStatus (checkWebsite R P web mti ent ln w) = PASS) =
            ((\<forall>p. isPolicyRelevant p (determineMerchantType mti) \<longrightarrow>
                  present (policies (checkWebsite R P web mti ent ln w) p)) \<and>
             (\<not> isProprietorship ent \<or>
              legalNamePresent (checkWebsite R P web mti ent ln w) = LN_true))) \<and>
         (complianceStatus (checkWebsite R P web mti ent ln w) \<noteq> PASS \<longrightarrow>
            complianceStatus (checkWebsite R P web mti ent ln w) = FAIL) \<and>
         (complianceStatus (checkWebsite R P web mti ent ln w) = PASS \<longrightarrow>
            missingPolicies (checkWebsite R P web mti ent ln w) = [])"
proof (rule checkWebsite_cases[where R=R and P=P and web=web and mti=mti and ent=ent and ln=ln and w=w], goal_cases load_failed thrown completed)
  case (load_failed e)
  then show ?thesis using assms by simp
next
  case (thrown e r')
  then show ?thesis using assms by simp
next
  case (completed r')
  have i: "missingPolicies r' = []" "complianceStatus r' = FAIL"
    using completed(1) by (simp_all add: frame_def initial_result_def)
  have c: "mtype (mk_ctx R P web mti ent ln) = determineMerchantType mti"
      "isProprietorEntity (mk_ctx R P web mti ent ln) = isProprietorship ent"
    by (simp_all add: mk_ctx_def)
  have m: "(\<forall>p. isPolicyRelevant p (determineMerchantType mti) \<longrightarrow> present (policies r' p)) \<Longrightarrow>
      filter (\<lambda>p. \<not> present (policies r' p)) (POLICY_ORDER (determineMerchantType mti)) = []"
    by (auto simp: filter_empty_conv relevant_iff_ORDER)
  show ?thesis
    unfolding completed(2)
    using i c m by (auto simp: final_evaluation_compliance final_evaluation_missing
        intro: compliance.exhaust)
qed

theorem compliance_verdict_witness:
  "error (checkWebsite no_engine services_site ''shop.test'' ''services'' ''private limited'' ''Acme'' []) = None \<and>
   complianceStatus (checkWebsite no_engine services_site ''shop.test'' ''services'' ''private limited'' ''Acme'' []) = PASS \<and>
   missingPolicies (checkWebsite no_engine services_site ''shop.test'' ''services'' ''private limited'' ''Acme'' []) = [] \<and>
   present (policies (checkWebsite no_engine services_site ''shop.test'' ''services'' ''private limited'' ''Acme'' []) Cancellation) \<and>
   complianceStatus (checkWebsite no_engine bare_site ''bare.test'' ''services'' ''private limited'' [] []) = FAIL"
proof -
  have hb: "error (checkWebsite no_engine bare_site ''bare.test'' ''services'' ''private limited'' [] []) = None"
    by code_simp
  have nb: "complianceStatus (checkWebsite no_engine bare_site ''bare.test'' ''services'' ''private limited'' [] []) \<noteq> PASS"
    by code_simp
  have fb: "complianceStatus (checkWebsite no_engine bare_site ''bare.test'' ''services'' ''private limited'' [] []) = FAIL"
    using compliance_verdict[OF hb, THEN conjunct2, THEN conjunct1] nb by blast
  have h: "error (checkWebsite no_engine services_site ''shop.test'' ''services'' ''private limited'' ''Acme'' []) = None"
    by code_simp
  have p: "complianceStatus (checkWebsite no_engine services_site ''shop.test'' ''services'' ''private limited'' ''Acme'' []) = PASS"
    by code_simp
  have q: "present (policies (checkWebsite no_engine services_site ''shop.test'' ''services'' ''private limited'' ''Acme'' []) Cancellation)"
    by code_simp
  show ?thesis
    using compliance_verdict[OF h] h p q fb by simp
qed

text \<open>
  C5. For every audit that reaches the final evaluation (it returns without an error),
  \<open>allRelevantPoliciesMissing\<close> is true exactly when no policy relevant to the merchant
  type is present, whatever the legal name's outcome, and \<open>ManualCheckingRequired\<close> is
  \<^verbatim>\<open>YES\<close> exactly when the flag is true.
\<close>

theorem manual_review_flag:
  assumes "error (checkWebsite R P web mti ent ln w) = None"
  shows "allRelevantPoliciesMissing (checkWebsite R P web mti ent ln w) =
           (\<forall>p. isPolicyRelevant p (determineMerchantType mti) \<longrightarrow>
                \<not> present (policies (checkWebsite R P web mti ent ln w) p)) \<and>
         (ManualCheckingRequired (checkWebsite R P web mti ent ln w) = ''YES'') =
           allRelevantPoliciesMissing (checkWebsite R P web mti ent ln w)"
proof (rule checkWebsite_cases[where R=R and P=P and web=web and mti=mti and ent=ent and ln=ln and w=w], goal_cases load_failed thrown completed)
  case (load_failed e)
  then show ?case using assms by simp
next
  case (thrown e r')
  then show ?case using assms by simp
next
  case (completed r')
  show ?case
    unfolding completed(2)
    by (simp add: final_evaluation_allMissing ManualCheckingRequired_def mk_ctx_def)
qed

theorem manual_review_flag_witness:
  "error (checkWebsite no_engine bare_site ''bare.test'' ''services'' ''private limited'' [] []) = None \<and>
   allRelevantPoliciesMissing (checkWebsite no_engine bare_site ''bare.test'' ''services'' ''private limited'' [] []) \<and>
   ManualCheckingRequired (checkWebsite no_engine bare_site ''bare.test'' ''services'' ''private limited'' [] []) = ''YES'' \<and>
   legalNamePresent (checkWebsite no_engine bare_site ''bare.test'' ''services'' ''private limited'' [] []) = LN_not_relevant"
proof -
  have h: "error (checkWebsite no_engine bare_site ''bare.test'' ''services'' ''private limited'' [] []) = None"
    by code_simp
  have a: "allRelevantPoliciesMissing (checkWebsite no_engine bare_site ''bare.test'' ''services'' ''private limited'' [] [])"
    by code_simp
  have n: "legalNamePresent (checkWebsite no_engine bare_site ''bare.test'' ''services'' ''private limited'' [] []) = LN_not_relevant"
    by code_simp
  show ?thesis
    using manual_review_flag[OF h] h a n by simp
qed

lemma frame_lnp_empty_name:
  "frame C r0 r' \<Longrightarrow> legalNamePresent r0 = LN_false \<Longrightarrow> name C = [] \<Longrightarrow>
   legalNamePresent r' \<noteq> LN_true"
  by (auto simp: frame_def)

text \<open>
  C8. For a proprietorship whose legal name is empty the verdict is \<open>FAIL\<close> in every
  run, also when every relevant policy is found, and the item \<^verbatim>\<open>legal name\<close> is never in
  \<open>missingPolicies\<close>: with every relevant policy found the merchant fails with an empty
  list.
\<close>

theorem empty_legal_name:
  assumes "isProprietorship ent" and "ln = []"
  shows "complianceStatus (checkWebsite R P web mti ent ln w) = FAIL \<and>
         ''legal name'' \<notin> set (missingPolicies (checkWebsite R P web mti ent ln w)) \<and>
         (error (checkWebsite R P web mti ent ln w) = None \<and>
          (\<forall>p. isPolicyRelevant p (determineMerchantType mti) \<longrightarrow>
               present (policies (checkWebsite R P web mti ent ln w) p)) \<longrightarrow>
          missingPolicies (checkWebsite R P web mti ent ln w) = [])"
proof (rule checkWebsite_cases[where R=R and P=P and web=web and mti=mti and ent=ent and ln=ln and w=w], goal_cases load_failed thrown completed)
  case (load_failed e)
  then show ?case by (simp add: initial_result_def)
next
  case (thrown e r')
  then show ?case by (simp add: frame_def initial_result_def)
next
  case (completed r')
  have i: "missingPolicies r' = []" "complianceStatus r' = FAIL"
    using completed(1) by (simp_all add: frame_def initial_result_def)
  have c: "mtype (mk_ctx R P web mti ent ln) = determineMerchantType mti"
      "isProprietorEntity (mk_ctx R P web mti ent ln)" "name (mk_ctx R P web mti ent ln) = []"
    using assms by (simp_all add: mk_ctx_def)
  have n: "legalNamePresent r' \<noteq> LN_true"
    using frame_lnp_empty_name[OF completed(1)] assms c by (simp add: initial_result_def)
  have m: "(\<forall>p. isPolicyRelevant p (determineMerchantType mti) \<longrightarrow> present (policies r' p)) \<Longrightarrow>
      filter (\<lambda>p. \<not> present (policies r' p)) (POLICY_ORDER (determineMerchantType mti)) = []"
    by (auto simp: filter_empty_conv relevant_iff_ORDER)
  show ?case
    unfolding completed(2)
    using i c n m
    by (auto simp: final_evaluation_compliance final_evaluation_missing
        policy_key_not_legal_name policy_key_not_legal_name[symmetric])
qed

theorem empty_legal_name_witness:
  "isProprietorship ''proprietor'' \<and>
   error (checkWebsite no_engine services_site ''shop.test'' ''services'' ''proprietor'' [] []) = None \<and>
   map (\<lambda>p. status (policies (checkWebsite no_engine services_site ''shop.test'' ''services'' ''proprietor'' [] []) p))
       (POLICY_ORDER Services) = [FOUND, FOUND, FOUND, FOUND] \<and>
   complianceStatus (checkWebsite no_engine services_site ''shop.test'' ''services'' ''proprietor'' [] []) = FAIL \<and>
   missingPolicies (checkWebsite no_engine services_site ''shop.test'' ''services'' ''proprietor'' [] []) = []"
proof -
  have h: "isProprietorship ''proprietor''"
    by code_simp
  have e: "error (checkWebsite no_engine services_site ''shop.test'' ''services'' ''proprietor'' [] []) = None"
    by code_simp
  have f: "map (\<lambda>p. status (policies (checkWebsite no_engine services_site ''shop.test'' ''services'' ''proprietor'' [] []) p))
       (POLICY_ORDER Services) = [FOUND, FOUND, FOUND, FOUND]"
    by code_simp
  have m: "missingPolicies (checkWebsite no_engine services_site ''shop.test'' ''services'' ''proprietor'' [] []) = []"
    by code_simp
  show ?thesis
    using empty_legal_name[OF h refl, of no_engine services_site "''shop.test''" "''services''" "[]"] h e f m
    by simp
qed

section \<open>Policies that do not apply, and the group resolution\<close>

lemma policy_key_inj: "policy_key p = policy_key q \<longleftrightarrow> p = q"
  by (cases p; cases q) simp_all

lemma status_invariant_frame:
  "frame C r r' \<Longrightarrow> status_invariant (mtype C) r \<Longrightarrow> status_invariant (mtype C) r'"
  unfolding frame_def status_invariant_def
  by (metis policy_status.distinct(3))

lemma status_invariant_initial:
  "status_invariant (determineMerchantType mti) (initial_result web mti ent ln)"
  by (simp add: status_invariant_def initial_result_def initial_outcome_def)

lemma status_invariant_final:
  "status_invariant (mtype C) r \<Longrightarrow> status_invariant (mtype C) (final_evaluation C r)"
  by (auto simp: status_invariant_def final_evaluation_status)

lemma status_invariant_error:
  "status_invariant mt (r\<lparr>error := e\<rparr>) = status_invariant mt r"
  by (simp add: status_invariant_def)

lemma final_evaluation_ignores_irrelevant:
  assumes "\<not> isPolicyRelevant q (mtype C)"
  shows "complianceStatus (final_evaluation C (r\<lparr>policies := (policies r)(q := out)\<rparr>)) =
           complianceStatus (final_evaluation C r)"
    and "missingPolicies (final_evaluation C (r\<lparr>policies := (policies r)(q := out)\<rparr>)) =
           missingPolicies (final_evaluation C r)"
proof -
  have q: "q \<notin> set (POLICY_ORDER (mtype C))"
    using assms by (simp add: relevant_iff_ORDER)
  have ne: "\<And>p. p \<in> set (POLICY_ORDER (mtype C)) \<Longrightarrow> p \<noteq> q"
    using q by auto
  show "complianceStatus (final_evaluation C (r\<lparr>policies := (policies r)(q := out)\<rparr>)) =
           complianceStatus (final_evaluation C r)"
    using assms by (auto simp: final_evaluation_compliance)
  show "missingPolicies (final_evaluation C (r\<lparr>policies := (policies r)(q := out)\<rparr>)) =
           missingPolicies (final_evaluation C r)"
    by (simp add: final_evaluation_missing ne cong: filter_cong)
qed

lemma checkWebsite_missing_keys:
  "set (missingPolicies (checkWebsite R P web mti ent ln w)) \<subseteq>
     policy_key ` set (POLICY_ORDER (determineMerchantType mti)) \<union> {''legal name''}"
proof (rule checkWebsite_cases[where R=R and P=P and web=web and mti=mti and ent=ent and ln=ln and w=w], goal_cases load_failed thrown completed)
  case (load_failed e)
  then show ?case by (simp add: initial_result_def)
next
  case (thrown e r')
  then show ?case by (simp add: frame_def initial_result_def)
next
  case (completed r')
  have "missingPolicies r' = []"
    using completed(1) by (simp add: frame_def initial_result_def)
  then show ?case
    unfolding completed(2) by (auto simp: final_evaluation_missing mk_ctx_def)
qed

lemma checkWebsite_status_invariant:
  "status_invariant (determineMerchantType mti) (checkWebsite R P web mti ent ln w)"
proof (rule checkWebsite_cases[where R=R and P=P and web=web and mti=mti and ent=ent and ln=ln and w=w], goal_cases load_failed thrown completed)
  case (load_failed e)
  then show ?case by (simp add: status_invariant_error status_invariant_initial)
next
  case (thrown e r')
  have "status_invariant (mtype (mk_ctx R P web mti ent ln)) r'"
    by (rule status_invariant_frame[OF thrown(1)]) (simp add: mk_ctx_def status_invariant_initial)
  then show ?case using thrown(2) by (simp add: status_invariant_error mk_ctx_def)
next
  case (completed r')
  have "status_invariant (mtype (mk_ctx R P web mti ent ln)) r'"
    by (rule status_invariant_frame[OF completed(1)]) (simp add: mk_ctx_def status_invariant_initial)
  then have "status_invariant (mtype (mk_ctx R P web mti ent ln))
               (final_evaluation (mk_ctx R P web mti ent ln) r')"
    by (rule status_invariant_final)
  then show ?case using completed(2) by (simp add: mk_ctx_def)
qed

lemma status_invariant_by_keys:
  assumes "list_all (\<lambda>p. (status (policies r p) = NOT_RELEVANT) = (\<not> isPolicyRelevant p mt))
             POLICY_KEYS"
  shows "status_invariant mt r"
  unfolding status_invariant_def
proof
  fix p
  have "p \<in> set POLICY_KEYS"
    by (cases p) (simp_all add: POLICY_KEYS_def)
  then show "(status (policies r p) = NOT_RELEVANT) = (\<not> isPolicyRelevant p mt)"
    using assms by (simp add: list_all_iff)
qed

text \<open>
  C3. An outcome has the status \<open>NOT_RELEVANT\<close> exactly when its policy does not apply to
  the merchant type: so at initialisation, so after each of the four passes and after the
  final evaluation when it was so before, and so in the result of every audit. The key of
  such a policy is never in \<open>missingPolicies\<close>, and the verdict and the missing items of
  the final evaluation do not change when the outcome of such a policy is replaced by any
  other.
\<close>

theorem not_relevant_invariant:
  "status_invariant (determineMerchantType mti) (initial_result web mti ent ln) \<and>
   (status_invariant (mtype C) (result s) \<longrightarrow>
      status_invariant (mtype C)
        (result (final_state (primary_pass C links (POLICY_ORDER (mtype C)) s))) \<and>
      status_invariant (mtype C) (result (final_state (group_resolution C s))) \<and>
      status_invariant (mtype C) (result (final_state (verification_step C s))) \<and>
      status_invariant (mtype C) (result (final_state (comprehensive_search C links s))) \<and>
      status_invariant (mtype C) (final_evaluation C (result s))) \<and>
   status_invariant (determineMerchantType mti) (checkWebsite R P web mti ent ln w) \<and>
   (\<forall>p. \<not> isPolicyRelevant p (determineMerchantType mti) \<longrightarrow>
        policy_key p \<notin> set (missingPolicies (checkWebsite R P web mti ent ln w))) \<and>
   (\<not> isPolicyRelevant q (mtype C) \<longrightarrow>
      complianceStatus (final_evaluation C (r\<lparr>policies := (policies r)(q := out)\<rparr>)) =
        complianceStatus (final_evaluation C r) \<and>
      missingPolicies (final_evaluation C (r\<lparr>policies := (policies r)(q := out)\<rparr>)) =
        missingPolicies (final_evaluation C r))"
proof (intro conjI impI allI)
  show "status_invariant (determineMerchantType mti) (initial_result web mti ent ln)"
    by (rule status_invariant_initial)
  show "status_invariant (determineMerchantType mti) (checkWebsite R P web mti ent ln w)"
    by (rule checkWebsite_status_invariant)
next
  assume inv: "status_invariant (mtype C) (result s)"
  show "status_invariant (mtype C)
          (result (final_state (primary_pass C links (POLICY_ORDER (mtype C)) s)))"
    using frame_primary_pass[OF frame_refl] inv by (rule status_invariant_frame)
  show "status_invariant (mtype C) (result (final_state (group_resolution C s)))"
    using frame_group_resolution[OF frame_refl] inv by (rule status_invariant_frame)
  show "status_invariant (mtype C) (result (final_state (verification_step C s)))"
    using frame_verification_step[OF frame_refl] inv by (rule status_invariant_frame)
  show "status_invariant (mtype C) (result (final_state (comprehensive_search C links s)))"
    using frame_comprehensive_search[OF frame_refl] inv by (rule status_invariant_frame)
  show "status_invariant (mtype C) (final_evaluation C (result s))"
    using inv by (rule status_invariant_final)
next
  fix p
  assume irr: "\<not> isPolicyRelevant p (determineMerchantType mti)"
  show "policy_key p \<notin> set (missingPolicies (checkWebsite R P web mti ent ln w))"
  proof
    assume a: "policy_key p \<in> set (missingPolicies (checkWebsite R P web mti ent ln w))"
    have "policy_key p \<in> policy_key ` set (POLICY_ORDER (determineMerchantType mti)) \<union> {''legal name''}"
      using checkWebsite_missing_keys[of R P web mti ent ln w] a by (rule subsetD)
    then have "policy_key p \<in> policy_key ` set (POLICY_ORDER (determineMerchantType mti))"
      by (simp add: policy_key_not_legal_name)
    then obtain x where x: "x \<in> set (POLICY_ORDER (determineMerchantType mti))"
        "policy_key p = policy_key x"
      by (rule imageE)
    have "p = x"
      using x(2) by (simp add: policy_key_inj)
    then show False
      using irr x(1) by (simp add: relevant_iff_ORDER)
  qed
next
  assume "\<not> isPolicyRelevant q (mtype C)"
  then show "complianceStatus (final_evaluation C (r\<lparr>policies := (policies r)(q := out)\<rparr>)) =
        complianceStatus (final_evaluation C r)"
    by (rule final_evaluation_ignores_irrelevant)
next
  assume "\<not> isPolicyRelevant q (mtype C)"
  then show "missingPolicies (final_evaluation C (r\<lparr>policies := (policies r)(q := out)\<rparr>)) =
        missingPolicies (final_evaluation C r)"
    by (rule final_evaluation_ignores_irrelevant)
qed

theorem not_relevant_invariant_witness:
  "status (policies (checkWebsite no_engine services_site ''shop.test'' ''services'' ''private limited'' ''Acme'' []) Shipping)
     = NOT_RELEVANT \<and>
   status (policies (checkWebsite no_engine services_site ''shop.test'' ''services'' ''private limited'' ''Acme'' []) Refund)
     \<noteq> NOT_RELEVANT \<and>
   ''shipping'' \<notin> set (missingPolicies (checkWebsite no_engine bare_site ''bare.test'' ''services'' ''private limited'' [] [])) \<and>
   missingPolicies (checkWebsite no_engine bare_site ''bare.test'' ''services'' ''private limited'' [] [])
     = [''privacy'', ''terms'', ''refund'', ''cancellation''] \<and>
   status (policies (result (final_state (group_resolution services_ctx services_after_primary)))
     Shipping) = NOT_RELEVANT \<and>
   complianceStatus (final_evaluation services_ctx
     ((result services_after_primary)\<lparr>policies := (policies (result services_after_primary))
        (Shipping := \<lparr>present = True, url = None, pageText = None, status = FOUND\<rparr>)\<rparr>)) =
     complianceStatus (final_evaluation services_ctx (result services_after_primary))"
proof -
  have mc: "mtype services_ctx = Services"
    by code_simp
  have "list_all (\<lambda>p. (status (policies (result services_after_primary) p) = NOT_RELEVANT) =
      (\<not> isPolicyRelevant p (mtype services_ctx))) POLICY_KEYS"
    by code_simp
  then have si: "status_invariant (mtype services_ctx) (result services_after_primary)"
    by (rule status_invariant_by_keys)
  have "status_invariant (mtype services_ctx)
      (result (final_state (group_resolution services_ctx services_after_primary)))"
    using not_relevant_invariant[where C=services_ctx and s=services_after_primary,
        THEN conjunct2, THEN conjunct1] si
    by blast
  then have g: "status (policies (result (final_state
      (group_resolution services_ctx services_after_primary))) Shipping) = NOT_RELEVANT"
    unfolding mc status_invariant_def by (simp add: isPolicyRelevant_def)
  have ns: "\<not> isPolicyRelevant Shipping (mtype services_ctx)"
    unfolding mc by (simp add: isPolicyRelevant_def)
  have k: "complianceStatus (final_evaluation services_ctx
     ((result services_after_primary)\<lparr>policies := (policies (result services_after_primary))
        (Shipping := \<lparr>present = True, url = None, pageText = None, status = FOUND\<rparr>)\<rparr>)) =
     complianceStatus (final_evaluation services_ctx (result services_after_primary))"
    using not_relevant_invariant[where C=services_ctx and q=Shipping
        and r="result services_after_primary"
        and out="\<lparr>present = True, url = None, pageText = None, status = FOUND\<rparr>",
        THEN conjunct2, THEN conjunct2, THEN conjunct2, THEN conjunct2] ns
    by blast
  have m: "determineMerchantType ''services'' = Services"
    by code_simp
  have i: "\<not> isPolicyRelevant Shipping Services" "isPolicyRelevant Refund Services"
    by (simp_all add: isPolicyRelevant_def)
  have l: "missingPolicies (checkWebsite no_engine bare_site ''bare.test'' ''services'' ''private limited'' [] [])
     = [''privacy'', ''terms'', ''refund'', ''cancellation'']"
    by code_simp
  have a: "status_invariant (determineMerchantType ''services'')
      (checkWebsite no_engine services_site ''shop.test'' ''services'' ''private limited'' ''Acme'' [])"
    by (rule not_relevant_invariant[where C=services_ctx and s=services_after_primary,
          THEN conjunct2, THEN conjunct2, THEN conjunct1])
  have "\<forall>p. \<not> isPolicyRelevant p (determineMerchantType ''services'') \<longrightarrow>
      policy_key p \<notin> set (missingPolicies
        (checkWebsite no_engine bare_site ''bare.test'' ''services'' ''private limited'' [] []))"
    by (rule not_relevant_invariant[where C=services_ctx and s=services_after_primary,
          THEN conjunct2, THEN conjunct2, THEN conjunct2, THEN conjunct1])
  then have b: "policy_key Shipping \<notin> set (missingPolicies
      (checkWebsite no_engine bare_site ''bare.test'' ''services'' ''private limited'' [] []))"
    using i(1) by (simp only: m) blast
  have c: "status (policies (checkWebsite no_engine services_site ''shop.test'' ''services'' ''private limited'' ''Acme'' []) Shipping)
     = NOT_RELEVANT"
    using a i(1) unfolding m status_invariant_def by blast
  have d: "status (policies (checkWebsite no_engine services_site ''shop.test'' ''services'' ''private limited'' ''Acme'' []) Refund)
     \<noteq> NOT_RELEVANT"
    using a i(2) unfolding m status_invariant_def by blast
  have e: "''shipping'' \<notin> set (missingPolicies
      (checkWebsite no_engine bare_site ''bare.test'' ''services'' ''private limited'' [] []))"
    using b by simp
  show ?thesis
    using c d e l g k by (intro conjI)
qed

section \<open>The group resolution does not navigate\<close>

lemma setFound_env [simp]:
  "world (setFound p u t s) = world s"
  "navigations (setFound p u t s) = navigations s"
  "collections (setFound p u t s) = collections s"
  "visitedPages (setFound p u t s) = visitedPages s"
  by (simp_all add: setFound_def)

lemma noteLegalName_env [simp]:
  "world (final_state (noteLegalName C t u s)) = world s"
  "navigations (final_state (noteLegalName C t u s)) = navigations s"
  "collections (final_state (noteLegalName C t u s)) = collections s"
  by (auto simp: noteLegalName_def setLegalName_def split: sum.splits)

lemma group_sources_env [simp]:
  "world (final_state (group_sources C p srcs s)) = world s"
  "navigations (final_state (group_sources C p srcs s)) = navigations s"
  "collections (final_state (group_sources C p srcs s)) = collections s"
  by (induction srcs arbitrary: s; simp split: option.splits)+

lemma group_policies_env:
  "world (final_state (group_policies C srcs ps s)) = world s \<and>
   navigations (final_state (group_policies C srcs ps s)) = navigations s \<and>
   collections (final_state (group_policies C srcs ps s)) = collections s"
proof (induction ps arbitrary: s)
  case Nil
  then show ?case by simp
next
  case (Cons p ps)
  show ?case
  proof (cases "\<not> isPolicyRelevant p (mtype C) \<or> present (policies (result s) p)")
    case True
    then show ?thesis using Cons by auto
  next
    case False
    show ?thesis
    proof (cases "group_sources C p srcs s")
      case (Done s')
      have "world s' = world s \<and> navigations s' = navigations s \<and> collections s' = collections s"
        using group_sources_env[of C p srcs s] Done by simp
      then show ?thesis using False Done Cons[of s'] by simp
    next
      case (Threw e s')
      have "world s' = world s \<and> navigations s' = navigations s \<and> collections s' = collections s"
        using group_sources_env[of C p srcs s] Threw by simp
      then show ?thesis using False Threw by simp
    qed
  qed
qed

lemma group_rounds_env:
  "world (final_state (group_rounds C G k s)) = world s \<and>
   navigations (final_state (group_rounds C G k s)) = navigations s \<and>
   collections (final_state (group_rounds C G k s)) \<le> collections s + k"
proof (induction k arbitrary: s)
  case 0
  then show ?case by simp
next
  case (Suc k)
  define s1 where "s1 = s\<lparr>collections := Suc (collections s)\<rparr>"
  have e1: "world s1 = world s" "navigations s1 = navigations s" "collections s1 = Suc (collections s)"
    by (simp_all add: s1_def)
  show ?case
  proof (cases "presentSources G s1 = []")
    case True
    then show ?thesis using e1 by (simp add: s1_def[symmetric] Let_def)
  next
    case False
    show ?thesis
    proof (cases "group_policies C (presentSources G s1) G s1")
      case (Done s')
      have "world s' = world s1 \<and> navigations s' = navigations s1 \<and> collections s' = collections s1"
        using group_policies_env[of C "presentSources G s1" G s1] Done by simp
      then show ?thesis using False Done Suc[of s'] e1 by (simp add: s1_def[symmetric] Let_def)
    next
      case (Threw e s')
      have "world s' = world s1 \<and> navigations s' = navigations s1 \<and> collections s' = collections s1"
        using group_policies_env[of C "presentSources G s1" G s1] Threw by simp
      then show ?thesis using False Threw e1 by (simp add: s1_def[symmetric] Let_def)
    qed
  qed
qed

lemma presentSources_collections:
  "presentSources G (s\<lparr>collections := n\<rparr>) = presentSources G s"
  by (simp add: presentSources_def)

lemma RESOLVABLE_GROUP_length:
  "length (RESOLVABLE_GROUP mt) = Suc (length (RESOLVABLE_GROUP mt) - 1)"
  by (cases mt) simp_all

text \<open>
  C6. The group resolution makes no navigation call (the list of the addresses navigated
  to and the browser's state are as before it) and it returns, completed or with an
  exception thrown: its loop collects the sources at most as many times as the group has
  policies, and stops at the first collection that finds no group policy with a text.
\<close>

theorem group_resolution_bounded:
  "navigations (final_state (group_resolution C s)) = navigations s \<and>
   world (final_state (group_resolution C s)) = world s \<and>
   collections (final_state (group_resolution C s)) \<le>
     collections s + length (RESOLVABLE_GROUP (mtype C)) \<and>
   (presentSources (RESOLVABLE_GROUP (mtype C)) s = [] \<longrightarrow>
      group_resolution C s = Done (s\<lparr>collections := Suc (collections s)\<rparr>)) \<and>
   ((\<exists>s'. group_resolution C s = Done s') \<or> (\<exists>e s'. group_resolution C s = Threw e s'))"
proof (intro conjI impI)
  show "navigations (final_state (group_resolution C s)) = navigations s"
    by (simp add: group_resolution_def group_rounds_env)
  show "world (final_state (group_resolution C s)) = world s"
    by (simp add: group_resolution_def group_rounds_env)
  show "collections (final_state (group_resolution C s)) \<le>
     collections s + length (RESOLVABLE_GROUP (mtype C))"
    by (simp add: group_resolution_def group_rounds_env)
  show "(\<exists>s'. group_resolution C s = Done s') \<or> (\<exists>e s'. group_resolution C s = Threw e s')"
    by (cases "group_resolution C s") auto
next
  assume "presentSources (RESOLVABLE_GROUP (mtype C)) s = []"
  then show "group_resolution C s = Done (s\<lparr>collections := Suc (collections s)\<rparr>)"
    unfolding group_resolution_def
    by (subst RESOLVABLE_GROUP_length) (simp add: presentSources_collections)
qed

theorem group_resolution_bounded_witness:
  "navigations (final_state (group_resolution services_ctx services_after_primary)) =
     navigations services_after_primary \<and>
   length (navigations services_after_primary) = 7 \<and>
   collections (final_state (group_resolution services_ctx services_after_primary)) = 2 \<and>
   \<not> present (policies (result services_after_primary) Cancellation) \<and>
   present (policies (result (final_state (group_resolution services_ctx services_after_primary)))
     Cancellation) \<and>
   collections (final_state (group_resolution services_ctx
     (initial_audit ''shop.test'' ''services'' ''private limited'' ''Acme'' []))) = 1"
proof -
  define s0 :: "string audit" where
    "s0 = initial_audit ''shop.test'' ''services'' ''private limited'' ''Acme'' []"
  have e: "presentSources (RESOLVABLE_GROUP (mtype services_ctx)) s0 = []"
    unfolding s0_def by code_simp
  have "group_resolution services_ctx s0 = Done (s0\<lparr>collections := Suc (collections s0)\<rparr>)"
    using group_resolution_bounded[of services_ctx s0,
        THEN conjunct2, THEN conjunct2, THEN conjunct2, THEN conjunct1] e
    by (rule mp)
  then have d: "collections (final_state (group_resolution services_ctx
     (initial_audit ''shop.test'' ''services'' ''private limited'' ''Acme'' []))) = 1"
    by (simp add: s0_def initial_audit_def)
  have n: "navigations (final_state (group_resolution services_ctx services_after_primary)) =
     navigations services_after_primary"
    by (rule group_resolution_bounded[of services_ctx services_after_primary, THEN conjunct1])
  have l: "length (navigations services_after_primary) = 7"
    by code_simp
  have c: "collections (final_state (group_resolution services_ctx services_after_primary)) = 2"
    by code_simp
  have a: "\<not> present (policies (result services_after_primary) Cancellation)"
    by code_simp
  have b: "present (policies (result (final_state (group_resolution services_ctx services_after_primary)))
     Cancellation)"
    by code_simp
  show ?thesis
    using n l c a b d by (intro conjI)
qed

section \<open>Failed navigations and thrown exceptions\<close>

lemma keeps_found_refl: "keeps_found r r"
  by (simp add: keeps_found_def)

lemma keeps_found_policies:
  "policies r' = policies r \<Longrightarrow> keeps_found r0 r \<Longrightarrow> keeps_found r0 r'"
  by (simp add: keeps_found_def)

lemma setLegalName_policies [simp]:
  "policies (result (setLegalName u s)) = policies (result s)"
  "policies (result (clearLegalName s)) = policies (result s)"
  by (simp_all add: setLegalName_def clearLegalName_def)

lemma noteLegalName_policies [simp]:
  "policies (result (final_state (noteLegalName C t u s))) = policies (result s)"
  by (auto simp: noteLegalName_def split: sum.splits)

lemma keeps_group_sources:
  "\<not> present (policies (result s) p) \<Longrightarrow> keeps_found r0 (result s) \<Longrightarrow>
   keeps_found r0 (result (final_state (group_sources C p srcs s)))"
proof (induction srcs arbitrary: s)
  case Nil
  then show ?case by simp
next
  case (Cons src srcs)
  have "keeps_found r0 (result (setFound p u t s))" for u t
    using Cons.prems by (auto simp: keeps_found_def setFound_def)
  then show ?case
    using Cons by (auto simp: keeps_found_def split: option.splits)
qed

lemma keeps_group_policies:
  "keeps_found r0 (result s) \<Longrightarrow>
   keeps_found r0 (result (final_state (group_policies C srcs ps s)))"
proof (induction ps arbitrary: s)
  case Nil
  then show ?case by simp
next
  case (Cons p ps)
  show ?case
  proof (cases "\<not> isPolicyRelevant p (mtype C) \<or> present (policies (result s) p)")
    case True
    then show ?thesis using Cons by auto
  next
    case False
    have "keeps_found r0 (result (final_state (case group_sources C p srcs s of
            Done s' \<Rightarrow> group_policies C srcs ps s' | Threw e s' \<Rightarrow> Threw e s')))"
      by (rule run_case_inv[where Q="\<lambda>s. keeps_found r0 (result s)"])
         (use False Cons in \<open>auto intro: keeps_group_sources\<close>)
    then show ?thesis using False by simp
  qed
qed

lemma keeps_group_rounds:
  "keeps_found r0 (result s) \<Longrightarrow>
   keeps_found r0 (result (final_state (group_rounds C G k s)))"
proof (induction k arbitrary: s)
  case 0
  then show ?case by simp
next
  case (Suc k)
  define s1 where "s1 = s\<lparr>collections := Suc (collections s)\<rparr>"
  have r1: "keeps_found r0 (result s1)" using Suc.prems by (simp add: s1_def)
  have "keeps_found r0 (result (final_state (case group_policies C (presentSources G s1) G s1 of
            Done s' \<Rightarrow> group_rounds C G k s' | Threw e s' \<Rightarrow> Threw e s')))"
    by (rule run_case_inv[where Q="\<lambda>s. keeps_found r0 (result s)"])
       (use r1 Suc.IH in \<open>auto intro: keeps_group_policies\<close>)
  then show ?case using r1 by (simp add: s1_def[symmetric] Let_def)
qed

lemma keeps_group_resolution:
  "keeps_found r0 (result s) \<Longrightarrow>
   keeps_found r0 (result (final_state (group_resolution C s)))"
  by (simp add: group_resolution_def keeps_group_rounds)

lemma verification_step_policies:
  "policies (result (final_state (verification_step C s))) = policies (result s)"
  by (auto simp: verification_step_def
      dest!: safeGoto_result' bodyText_result
      split: option.splits prod.splits sum.splits)

lemma search_visited_policies:
  "policies (result (final_state (search_visited C vs s))) = policies (result s)"
  by (induction vs arbitrary: s) (auto split: sum.splits)

lemma search_homepage_policies:
  "policies (result (final_state (search_homepage C s))) = policies (result s)"
  by (auto simp: search_homepage_def safeGoto_result
      dest!: bodyText_result split: sum.splits prod.splits)

lemma other_links_policies:
  "policies (result (final_state (other_links C ls s))) = policies (result s)"
proof (induction ls arbitrary: s)
  case Nil
  then show ?case by simp
next
  case (Cons l ls)
  obtain ok s1 where g: "safeGoto (pg C) (link_href l) s = (ok, s1)" by force
  have r1: "result s1 = result s" using safeGoto_result'[OF g] .
  show ?case
  proof (cases ok)
    case False
    then show ?thesis using g Cons r1 by simp
  next
    case True
    show ?thesis
    proof (cases "bodyText (pg C) s1")
      case (Inl a)
      then show ?thesis using g True r1 bodyText_result(2)[of "pg C" s1 "fst a" "snd a"]
        by (auto split: prod.splits)
    next
      case (Inr b)
      obtain t s2 where b: "b = (t, s2)" by force
      have r2: "result s2 = result s" using bodyText_result(1)[of "pg C" s1 t s2] Inr b r1 by simp
      define s3 where "s3 = snd (safeGoto (pg C) (site C) s2)"
      have r3: "result s3 = result s" by (simp add: s3_def safeGoto_result r2)
      show ?thesis using g True Inr b r2 r3 Cons.IH[of s3]
        by (auto simp: s3_def[symmetric] Let_def split: sum.splits)
    qed
  qed
qed

lemma other_pages_policies:
  "policies (result (final_state (other_pages C links pts s))) = policies (result s)"
proof (induction pts arbitrary: s)
  case Nil
  then show ?case by simp
next
  case (Cons pt pts)
  show ?case
    using other_links_policies[of C "take 2 (relevantLinks links pt)" s] Cons
    by (cases "other_links C (take 2 (relevantLinks links pt)) s") auto
qed

lemma comprehensive_search_policies:
  "policies (result (final_state (comprehensive_search C links s))) = policies (result s)"
proof (cases "isProprietorEntity C \<and> legalNamePresent (result s) = LN_false \<and> name C \<noteq> []")
  case False
  then show ?thesis by (auto simp: comprehensive_search_def)
next
  case True
  show ?thesis
  proof (cases "search_visited C (visitedPages s) s")
    case (Threw e s1)
    then show ?thesis
      using True search_visited_policies[of C "visitedPages s" s]
      by (simp add: comprehensive_search_def)
  next
    case (Done s1)
    have p1: "policies (result s1) = policies (result s)"
      using search_visited_policies[of C "visitedPages s" s] Done by simp
    show ?thesis
    proof (cases "search_homepage C s1")
      case (Threw e s2)
      then show ?thesis
        using True Done p1 search_homepage_policies[of C s1]
        by (simp add: comprehensive_search_def)
    next
      case d2: (Done s2)
      have p2: "policies (result s2) = policies (result s)"
        using search_homepage_policies[of C s1] d2 p1 by simp
      show ?thesis
        using True Done d2 p2 other_pages_policies[of C links otherPages s2]
        by (simp add: comprehensive_search_def)
    qed
  qed
qed

lemma keeps_after_primary:
  assumes "primary_pass C links (POLICY_ORDER (mtype C)) s = Done s1"
  shows "keeps_found (result s1) (result (final_state (passes C links s)))"
proof -
  have "keeps_found (result s1) (result (final_state
          (case group_resolution C s1 of
             Done s2 \<Rightarrow>
               (case verification_step C s2 of
                  Done s3 \<Rightarrow> comprehensive_search C links s3
                | Threw e s3 \<Rightarrow> Threw e s3)
           | Threw e s2 \<Rightarrow> Threw e s2)))"
  proof (intro run_case_inv[where Q="\<lambda>s. keeps_found (result s1) (result s)"], goal_cases)
    case 1
    show ?case by (rule keeps_group_resolution) (rule keeps_found_refl)
  next
    case (2 s2)
    show ?case
      by (rule keeps_found_policies[OF verification_step_policies]) (rule 2(2))
  next
    case (3 s2 s3)
    show ?case
      by (rule keeps_found_policies[OF comprehensive_search_policies]) (rule 3(4))
  qed
  then show ?thesis
    using assms by (simp add: passes_def)
qed

lemma safeGoto_page_goto:
  "page_goto P u (world s) = (Inr x, w1) \<Longrightarrow>
   safeGoto P u s = (True, s\<lparr>world := w1, navigations := navigations s @ [u]\<rparr>)"
  by (simp add: safeGoto_def)

lemma checkWebsite_loaded:
  assumes "page_goto P web w = (Inr x, w1)" and "page_eval_links P w1 = (Inr raw, w2)"
  shows "checkWebsite R P web mti ent ln w =
     (case passes (mk_ctx R P web mti ent ln) (normalize_links raw)
             (loaded_audit web mti ent ln w2) of
        Done s' \<Rightarrow> final_evaluation (mk_ctx R P web mti ent ln) (result s')
      | Threw e s' \<Rightarrow> (result s')\<lparr>error := Some (message e)\<rparr>)"
proof -
  have g: "safeGoto P web (initial_audit web mti ent ln w) =
      (True, (initial_audit web mti ent ln w)\<lparr>world := w1, navigations := [web]\<rparr>)"
    using safeGoto_page_goto[of P web "initial_audit web mti ent ln w" x w1] assms(1)
    by (simp add: initial_audit_def)
  have l: "(initial_audit web mti ent ln w)\<lparr>world := w1, navigations := [web], world := w2\<rparr> =
      loaded_audit web mti ent ln w2"
    by (simp add: loaded_audit_def initial_audit_def)
  show ?thesis
    using g assms(2) l
    by (simp add: checkWebsite_def run_audit_def Let_def caught_def initial_audit_def
        split: run.splits)
qed

lemma final_evaluation_url [simp]:
  "url (policies (final_evaluation C r) q) = url (policies r q)"
  by (simp add: final_evaluation_def Let_def)

text \<open>
  C7. \<open>safeGoto\<close> returns a boolean, false exactly when \<^verbatim>\<open>page.goto\<close> rejects. In the
  primary pass and in the comprehensive search a link whose navigation fails is skipped:
  the loop goes on with the next link and the result object is as before. An exception
  thrown during the audit (by the reading of the links, or by a pass) ends it with the
  result as it stood when the exception was thrown and the exception's message as its
  error; what the primary pass had found is found in the returned result, at the same
  address.
\<close>

theorem navigation_failure_and_errors:
  "(fst (safeGoto P u s) = (\<exists>x. fst (page_goto P u (world s)) = Inr x)) \<and>
   (link_href l \<noteq> [] \<and> link_text l \<noteq> [] \<and> containsAny (link_text l) (anchorHints p) \<and>
    \<not> fst (safeGoto (pg C) (link_href l) s) \<longrightarrow>
      primary_links C p (l # ls) s = primary_links C p ls (snd (safeGoto (pg C) (link_href l) s)) \<and>
      result (snd (safeGoto (pg C) (link_href l) s)) = result s) \<and>
   (\<not> fst (safeGoto (pg C) (link_href l) s) \<longrightarrow>
      other_links C (l # ls) s = other_links C ls (snd (safeGoto (pg C) (link_href l) s))) \<and>
   (page_goto P web w = (Inr x, w1) \<and> page_eval_links P w1 = (Inl e, w2) \<longrightarrow>
      checkWebsite R P web mti ent ln w =
        (initial_result web mti ent ln)\<lparr>error := Some (message e)\<rparr>) \<and>
   (page_goto P web w = (Inr x, w1) \<and> page_eval_links P w1 = (Inr raw, w2) \<and>
    passes (mk_ctx R P web mti ent ln) (normalize_links raw) (loaded_audit web mti ent ln w2) =
      Threw e s' \<longrightarrow>
      checkWebsite R P web mti ent ln w = (result s')\<lparr>error := Some (message e)\<rparr>) \<and>
   (page_goto P web w = (Inr x, w1) \<and> page_eval_links P w1 = (Inr raw, w2) \<and>
    primary_pass (mk_ctx R P web mti ent ln) (normalize_links raw)
      (POLICY_ORDER (determineMerchantType mti)) (loaded_audit web mti ent ln w2) = Done s1 \<longrightarrow>
      keeps_found (result s1) (checkWebsite R P web mti ent ln w))"
proof (intro conjI impI)
  show "fst (safeGoto P u s) = (\<exists>x. fst (page_goto P u (world s)) = Inr x)"
    by (auto simp: safeGoto_def split: prod.splits sum.splits)
next
  assume a: "link_href l \<noteq> [] \<and> link_text l \<noteq> [] \<and> containsAny (link_text l) (anchorHints p) \<and>
    \<not> fst (safeGoto (pg C) (link_href l) s)"
  then show "primary_links C p (l # ls) s =
      primary_links C p ls (snd (safeGoto (pg C) (link_href l) s))"
    by (cases "safeGoto (pg C) (link_href l) s") auto
  show "result (snd (safeGoto (pg C) (link_href l) s)) = result s"
    by (rule safeGoto_result)
next
  assume "\<not> fst (safeGoto (pg C) (link_href l) s)"
  then show "other_links C (l # ls) s = other_links C ls (snd (safeGoto (pg C) (link_href l) s))"
    by (cases "safeGoto (pg C) (link_href l) s") auto
next
  assume a: "page_goto P web w = (Inr x, w1) \<and> page_eval_links P w1 = (Inl e, w2)"
  have g: "safeGoto P web (initial_audit web mti ent ln w) =
      (True, (initial_audit web mti ent ln w)\<lparr>world := w1, navigations := [web]\<rparr>)"
    using safeGoto_page_goto[of P web "initial_audit web mti ent ln w" x w1] a
    by (simp add: initial_audit_def)
  show "checkWebsite R P web mti ent ln w =
        (initial_result web mti ent ln)\<lparr>error := Some (message e)\<rparr>"
    using g a by (simp add: checkWebsite_def run_audit_def Let_def caught_def initial_audit_def)
next
  assume a: "page_goto P web w = (Inr x, w1) \<and> page_eval_links P w1 = (Inr raw, w2) \<and>
    passes (mk_ctx R P web mti ent ln) (normalize_links raw) (loaded_audit web mti ent ln w2) =
      Threw e s'"
  then show "checkWebsite R P web mti ent ln w = (result s')\<lparr>error := Some (message e)\<rparr>"
    using checkWebsite_loaded[of P web w x w1 raw w2 R mti ent ln] by simp
next
  assume a: "page_goto P web w = (Inr x, w1) \<and> page_eval_links P w1 = (Inr raw, w2) \<and>
    primary_pass (mk_ctx R P web mti ent ln) (normalize_links raw)
      (POLICY_ORDER (determineMerchantType mti)) (loaded_audit web mti ent ln w2) = Done s1"
  define C where "C = mk_ctx R P web mti ent ln"
  define m where "m = passes C (normalize_links raw) (loaded_audit web mti ent ln w2)"
  have mt: "mtype C = determineMerchantType mti"
    by (simp add: C_def mk_ctx_def)
  have k: "keeps_found (result s1) (result (final_state m))"
    unfolding m_def by (rule keeps_after_primary) (use a mt in \<open>simp add: C_def\<close>)
  have c: "checkWebsite R P web mti ent ln w =
     (case m of Done s' \<Rightarrow> final_evaluation C (result s')
      | Threw e s' \<Rightarrow> (result s')\<lparr>error := Some (message e)\<rparr>)"
    unfolding m_def C_def using a checkWebsite_loaded[of P web w x w1 raw w2 R mti ent ln] by simp
  show "keeps_found (result s1) (checkWebsite R P web mti ent ln w)"
    using k unfolding c by (cases m) (auto simp: keeps_found_def)
qed

lemma thrown_Some: "thrown m = Some e \<Longrightarrow> m = Threw e (final_state m)"
  by (cases m) simp_all

lemma thrown_None: "thrown m = None \<Longrightarrow> m = Done (final_state m)"
  by (cases m) simp_all

theorem navigation_failure_and_errors_witness:
  "\<not> fst (safeGoto flaky_site ''shop.test/privacy-old'' flaky_start) \<and>
   primary_links flaky_ctx Privacy flaky_links flaky_start =
     primary_links flaky_ctx Privacy (tl flaky_links)
       (snd (safeGoto flaky_site ''shop.test/privacy-old'' flaky_start)) \<and>
   other_links flaky_ctx flaky_links flaky_start =
     other_links flaky_ctx (tl flaky_links)
       (snd (safeGoto flaky_site ''shop.test/privacy-old'' flaky_start)) \<and>
   error (checkWebsite (RegExp_i_test no_engine) flaky_site ''shop.test'' ''goods'' ''proprietor''
            ''Acme (Traders'' []) =
     Some (''Invalid regular expression: /'' @ exactPattern ''acme (traders'' @
           ''/i: Unterminated group'') \<and>
   url (policies (checkWebsite (RegExp_i_test no_engine) flaky_site ''shop.test'' ''goods''
                    ''proprietor'' ''Acme (Traders'' []) Privacy) =
     Some ''shop.test/privacy'' \<and>
   checkWebsite no_engine broken_site ''shop.test'' ''goods'' ''proprietor'' ''Acme'' [] =
     (initial_result ''shop.test'' ''goods'' ''proprietor'' ''Acme'')
       \<lparr>error := Some ''Execution context was destroyed''\<rparr> \<and>
   present (policies (checkWebsite no_engine services_site ''shop.test'' ''services''
                       ''private limited'' ''Acme'' []) Refund)"
proof -
  note T = navigation_failure_and_errors
  have h1: "link_href (hd flaky_links) \<noteq> [] \<and> link_text (hd flaky_links) \<noteq> [] \<and>
      containsAny (link_text (hd flaky_links)) (anchorHints Privacy) \<and>
      \<not> fst (safeGoto (pg flaky_ctx) (link_href (hd flaky_links)) flaky_start)"
    by code_simp
  have l: "flaky_links = hd flaky_links # tl flaky_links"
    by (simp add: flaky_links_def)
  have c: "pg flaky_ctx = flaky_site" "link_href (hd flaky_links) = ''shop.test/privacy-old''"
    by (simp_all add: flaky_ctx_def mk_ctx_def flaky_links_def)
  have a1: "primary_links flaky_ctx Privacy (hd flaky_links # tl flaky_links) flaky_start =
      primary_links flaky_ctx Privacy (tl flaky_links)
        (snd (safeGoto (pg flaky_ctx) (link_href (hd flaky_links)) flaky_start))"
    using T[where C=flaky_ctx and l="hd flaky_links" and p=Privacy and s=flaky_start
        and ls="tl flaky_links", THEN conjunct2, THEN conjunct1] h1
    by blast
  have w1: "\<not> fst (safeGoto flaky_site ''shop.test/privacy-old'' flaky_start)"
    using h1 c by simp
  have w2: "primary_links flaky_ctx Privacy flaky_links flaky_start =
     primary_links flaky_ctx Privacy (tl flaky_links)
       (snd (safeGoto flaky_site ''shop.test/privacy-old'' flaky_start))"
    using a1 l c by simp
  have a3: "other_links flaky_ctx (hd flaky_links # tl flaky_links) flaky_start =
      other_links flaky_ctx (tl flaky_links)
        (snd (safeGoto (pg flaky_ctx) (link_href (hd flaky_links)) flaky_start))"
    using T[where C=flaky_ctx and l="hd flaky_links" and s=flaky_start
        and ls="tl flaky_links", THEN conjunct2, THEN conjunct2, THEN conjunct1] h1
    by blast
  have w2': "other_links flaky_ctx flaky_links flaky_start =
     other_links flaky_ctx (tl flaky_links)
       (snd (safeGoto flaky_site ''shop.test/privacy-old'' flaky_start))"
    using a3 l c by simp
  have g: "page_goto flaky_site ''shop.test'' [] = (Inr (), ''shop.test'')"
    by (simp add: flaky_site_def static_site_def)
  have v: "page_eval_links flaky_site ''shop.test'' =
      (Inr [\<lparr>link_text = ''Privacy (old)'', link_href = ''shop.test/privacy-old''\<rparr>,
            \<lparr>link_text = ''Privacy policy'', link_href = ''shop.test/privacy''\<rparr>], ''shop.test'')"
    by (simp add: flaky_site_def static_site_def)
  define m where "m = passes (mk_ctx (RegExp_i_test no_engine) flaky_site ''shop.test'' ''goods''
        ''proprietor'' ''Acme (Traders'')
      (normalize_links [\<lparr>link_text = ''Privacy (old)'', link_href = ''shop.test/privacy-old''\<rparr>,
            \<lparr>link_text = ''Privacy policy'', link_href = ''shop.test/privacy''\<rparr>])
      (loaded_audit ''shop.test'' ''goods'' ''proprietor'' ''Acme (Traders'' ''shop.test'')"
  have t: "thrown m = Some (JsError (''Invalid regular expression: /'' @
      exactPattern ''acme (traders'' @ ''/i: Unterminated group''))"
    unfolding m_def by code_simp
  have u: "url (policies (result (final_state m)) Privacy) = Some ''shop.test/privacy''"
    unfolding m_def by code_simp
  have a2: "checkWebsite (RegExp_i_test no_engine) flaky_site ''shop.test'' ''goods'' ''proprietor''
            ''Acme (Traders'' [] =
      (result (final_state m))\<lparr>error := Some (message (JsError (''Invalid regular expression: /'' @
      exactPattern ''acme (traders'' @ ''/i: Unterminated group'')))\<rparr>"
    using T[where P=flaky_site and web="''shop.test''" and w="[]" and x="()"
        and ?w1.0="''shop.test''" and ?w2.0="''shop.test''" and R="RegExp_i_test no_engine"
        and mti="''goods''" and ent="''proprietor''" and ln="''Acme (Traders''"
        and e="JsError (''Invalid regular expression: /'' @
          exactPattern ''acme (traders'' @ ''/i: Unterminated group'')"
        and s'="final_state m",
        THEN conjunct2, THEN conjunct2, THEN conjunct2, THEN conjunct2, THEN conjunct1]
      g v thrown_Some[OF t]
    unfolding m_def by blast
  have w3: "error (checkWebsite (RegExp_i_test no_engine) flaky_site ''shop.test'' ''goods''
        ''proprietor'' ''Acme (Traders'' []) =
     Some (''Invalid regular expression: /'' @ exactPattern ''acme (traders'' @
           ''/i: Unterminated group'')"
    unfolding a2 by simp
  have w4: "url (policies (checkWebsite (RegExp_i_test no_engine) flaky_site ''shop.test'' ''goods''
                    ''proprietor'' ''Acme (Traders'' []) Privacy) = Some ''shop.test/privacy''"
    unfolding a2 using u by simp
  have gb: "page_goto broken_site ''shop.test'' [] = (Inr (), ''shop.test'')"
    by (simp add: broken_site_def static_site_def)
  have vb: "page_eval_links broken_site ''shop.test'' =
      (Inl (JsError ''Execution context was destroyed''), ''shop.test'')"
    by (simp add: broken_site_def static_site_def)
  have w5: "checkWebsite no_engine broken_site ''shop.test'' ''goods'' ''proprietor'' ''Acme'' [] =
     (initial_result ''shop.test'' ''goods'' ''proprietor'' ''Acme'')
       \<lparr>error := Some ''Execution context was destroyed''\<rparr>"
    using T[where P=broken_site and web="''shop.test''" and w="[]" and x="()"
        and ?w1.0="''shop.test''" and ?w2.0="''shop.test''" and R=no_engine
        and mti="''goods''" and ent="''proprietor''" and ln="''Acme''"
        and e="JsError ''Execution context was destroyed''",
        THEN conjunct2, THEN conjunct2, THEN conjunct2, THEN conjunct1]
      gb vb
    by simp
  have gs: "page_goto services_site ''shop.test'' [] = (Inr (), ''shop.test'')"
    by (simp add: services_site_def static_site_def)
  have vs: "page_eval_links services_site ''shop.test'' =
      (Inr [\<lparr>link_text = ''Privacy'', link_href = ''shop.test/privacy''\<rparr>,
            \<lparr>link_text = ''Terms'', link_href = ''shop.test/terms''\<rparr>,
            \<lparr>link_text = ''Refunds'', link_href = ''shop.test/refund''\<rparr>], ''shop.test'')"
    by (simp add: services_site_def static_site_def)
  define n where "n = primary_pass (mk_ctx no_engine services_site ''shop.test'' ''services''
        ''private limited'' ''Acme'')
      (normalize_links [\<lparr>link_text = ''Privacy'', link_href = ''shop.test/privacy''\<rparr>,
            \<lparr>link_text = ''Terms'', link_href = ''shop.test/terms''\<rparr>,
            \<lparr>link_text = ''Refunds'', link_href = ''shop.test/refund''\<rparr>])
      (POLICY_ORDER (determineMerchantType ''services''))
      (loaded_audit ''shop.test'' ''services'' ''private limited'' ''Acme'' ''shop.test'')"
  have tn: "thrown n = None"
    unfolding n_def by code_simp
  have pn: "present (policies (result (final_state n)) Refund)"
    unfolding n_def by code_simp
  have a6: "keeps_found (result (final_state n))
      (checkWebsite no_engine services_site ''shop.test'' ''services'' ''private limited'' ''Acme'' [])"
    using T[where P=services_site and web="''shop.test''" and w="[]" and x="()"
        and ?w1.0="''shop.test''" and ?w2.0="''shop.test''" and R=no_engine
        and mti="''services''" and ent="''private limited''" and ln="''Acme''"
        and ?s1.0="final_state n",
        THEN conjunct2, THEN conjunct2, THEN conjunct2, THEN conjunct2, THEN conjunct2]
      gs vs thrown_None[OF tn]
    unfolding n_def by blast
  have w6: "present (policies (checkWebsite no_engine services_site ''shop.test'' ''services''
                       ''private limited'' ''Acme'' []) Refund)"
    using a6 pn by (simp add: keeps_found_def)
  show ?thesis
    using w1 w2 w2' w3 w4 w5 w6 by (intro conjI)
qed

section \<open>The scan of the links in the primary pass\<close>


lemma primary_links_found:
  assumes "link_href l \<noteq> []" "link_text l \<noteq> []" "containsAny (link_text l) (anchorHints p)"
    and "safeGoto (pg C) (link_href l) s = (True, s1)"
    and "bodyText (pg C) s1 = Inr (t, s2)"
    and "containsAny t (pageKeywords p)"
  shows "primary_links C p (l # ls) s = primary_links C p [l] s"
    and "present (policies (result (final_state (primary_links C p (l # ls) s))) p)"
    and "url (policies (result (final_state (primary_links C p (l # ls) s))) p) = Some (link_href l)"
proof -
  define s3 where "s3 = s2\<lparr>visitedPages := visitedPages s2 @
      [\<lparr>vp_url = link_href l, vp_pageText = t, vp_policyType = p\<rparr>]\<rparr>"
  define m where "m = noteLegalName C t (Some (link_href l))
      (setFound p (Some (link_href l)) (Some t) s3)"
  have e: "primary_links C p (l # ks) s =
      (case m of Done s4 \<Rightarrow> Done (snd (safeGoto (pg C) (site C) s4)) | Threw e s4 \<Rightarrow> Threw e s4)"
    for ks
    using assms by (simp add: s3_def[symmetric] m_def[symmetric] Let_def)
  show "primary_links C p (l # ls) s = primary_links C p [l] s"
    by (simp only: e)
  have pm: "policies (result (final_state m)) =
      policies (result (setFound p (Some (link_href l)) (Some t) s3))"
    unfolding m_def by (rule noteLegalName_policies)
  have f: "policies (result (final_state (primary_links C p (l # ls) s))) =
      policies (result (setFound p (Some (link_href l)) (Some t) s3))"
    unfolding e using pm by (cases m) (simp_all add: safeGoto_result)
  show "present (policies (result (final_state (primary_links C p (l # ls) s))) p)"
    unfolding f by (simp add: setFound_def)
  show "url (policies (result (final_state (primary_links C p (l # ls) s))) p) = Some (link_href l)"
    unfolding f by (simp add: setFound_def)
qed



section \<open>The legal name matcher\<close>

lemma occurs_at_Cons [simp]:
  "occurs_at (c # cs) k 0 = starts_with (c # cs) k"
  "occurs_at (c # cs) k (Suc i) = occurs_at cs k i"
  by (simp_all add: occurs_at_def)

lemma occurs_at_Nil [simp]: "occurs_at [] k i = (i = 0 \<and> k = [])"
  by (cases k) (auto simp: occurs_at_def)

lemma indexOf_from_none:
  "(\<forall>i. \<not> occurs_at t k i) \<Longrightarrow> indexOf_from t k n = - 1"
proof (induction t arbitrary: n)
  case Nil
  then show ?case using Nil.prems[rule_format, of 0] by simp
next
  case (Cons c cs)
  have "\<not> starts_with (c # cs) k"
    using Cons.prems[rule_format, of 0] by simp
  moreover have "\<forall>i. \<not> occurs_at cs k i"
    using Cons.prems by (metis occurs_at_Cons(2))
  ultimately show ?case
    using Cons.IH by simp
qed

lemma indexOf_from_first:
  "is_first_occurrence t k i \<Longrightarrow> indexOf_from t k n = n + int i"
proof (induction t arbitrary: n i)
  case Nil
  then show ?case by (simp add: is_first_occurrence_def)
next
  case (Cons c cs)
  show ?case
  proof (cases "starts_with (c # cs) k")
    case True
    then have "i = 0"
      using Cons.prems by (cases i) (auto simp: is_first_occurrence_def)
    then show ?thesis using True by simp
  next
    case False
    then obtain i' where i: "i = Suc i'"
      using Cons.prems by (cases i) (auto simp: is_first_occurrence_def)
    have "is_first_occurrence cs k i'"
      using Cons.prems unfolding is_first_occurrence_def i
      by (metis Suc_less_eq occurs_at_Cons(2))
    then have "indexOf_from cs k (n + 1) = n + 1 + int i'"
      by (rule Cons.IH)
    then show ?thesis using False i by simp
  qed
qed

lemma lastIndexOf_from_none:
  "(\<forall>i. \<not> occurs_at t k i) \<Longrightarrow> lastIndexOf_from t k n best = best"
proof (induction t arbitrary: n best)
  case Nil
  then show ?case using Nil.prems[rule_format, of 0] by simp
next
  case (Cons c cs)
  have "\<not> starts_with (c # cs) k"
    using Cons.prems[rule_format, of 0] by simp
  moreover have "\<forall>i. \<not> occurs_at cs k i"
    using Cons.prems by (metis occurs_at_Cons(2))
  ultimately show ?case
    using Cons.IH by simp
qed

lemma lastIndexOf_from_last:
  "is_last_occurrence t k j \<Longrightarrow> lastIndexOf_from t k n best = n + int j"
proof (induction t arbitrary: n j best)
  case Nil
  then show ?case by (simp add: is_last_occurrence_def)
next
  case (Cons c cs)
  show ?case
  proof (cases j)
    case 0
    have s: "starts_with (c # cs) k"
      using Cons.prems 0 by (simp add: is_last_occurrence_def)
    have "\<forall>i. \<not> occurs_at cs k i"
      using Cons.prems 0 unfolding is_last_occurrence_def
      by (metis occurs_at_Cons(2) zero_less_Suc)
    then have "lastIndexOf_from cs k (n + 1) n = n"
      by (rule lastIndexOf_from_none)
    then show ?thesis using s 0 by simp
  next
    case (Suc j')
    have "is_last_occurrence cs k j'"
      using Cons.prems unfolding is_last_occurrence_def Suc
      by (metis Suc_less_eq occurs_at_Cons(2))
    then have "lastIndexOf_from cs k (n + 1) (if starts_with (c # cs) k then n else best) =
        n + 1 + int j'"
      by (rule Cons.IH)
    then show ?thesis using Suc by simp
  qed
qed

lemma first_occurrence_exists:
  assumes "occurs_at t k i"
  shows "\<exists>i. is_first_occurrence t k i"
proof -
  have "occurs_at t k (LEAST i. occurs_at t k i)"
    using assms by (rule LeastI)
  moreover have "\<forall>j<(LEAST i. occurs_at t k i). \<not> occurs_at t k j"
    using not_less_Least by blast
  ultimately show ?thesis
    unfolding is_first_occurrence_def by blast
qed

lemma last_occurrence_exists:
  assumes "occurs_at t k i"
  shows "\<exists>j. is_last_occurrence t k j"
proof -
  have b: "\<forall>j. occurs_at t k j \<longrightarrow> j \<le> length t"
    by (simp add: occurs_at_def)
  have "occurs_at t k (GREATEST j. occurs_at t k j)"
    using assms b by (metis GreatestI_nat)
  moreover have "\<forall>j>(GREATEST j. occurs_at t k j). \<not> occurs_at t k j"
    using b by (metis Greatest_le_nat not_le)
  ultimately show ?thesis
    unfolding is_last_occurrence_def by blast
qed

lemma indexOf_found:
  "indexOf t k \<noteq> - 1 \<longleftrightarrow> (\<exists>i. is_first_occurrence t k i)"
proof
  assume a: "indexOf t k \<noteq> - 1"
  then have "\<exists>i. occurs_at t k i"
    using indexOf_from_none[of t k 0] unfolding indexOf_def by blast
  then show "\<exists>i. is_first_occurrence t k i"
    using first_occurrence_exists by blast
next
  assume "\<exists>i. is_first_occurrence t k i"
  then obtain i where "is_first_occurrence t k i" by blast
  then have "indexOf t k = int i"
    using indexOf_from_first[of t k i 0] by (simp add: indexOf_def)
  then show "indexOf t k \<noteq> - 1" by simp
qed

lemma lastIndexOf_found:
  "lastIndexOf t k \<noteq> - 1 \<longleftrightarrow> (\<exists>j. is_last_occurrence t k j)"
proof
  assume a: "lastIndexOf t k \<noteq> - 1"
  then have "\<exists>i. occurs_at t k i"
    using lastIndexOf_from_none[of t k 0 "- 1"] unfolding lastIndexOf_def by blast
  then show "\<exists>j. is_last_occurrence t k j"
    using last_occurrence_exists by blast
next
  assume "\<exists>j. is_last_occurrence t k j"
  then obtain j where "is_last_occurrence t k j" by blast
  then have "lastIndexOf t k = int j"
    using lastIndexOf_from_last[of t k j 0 "- 1"] by (simp add: lastIndexOf_def)
  then show "lastIndexOf t k \<noteq> - 1" by simp
qed

lemma proximity_occurrences:
  assumes "found \<noteq> []"
  shows "proximity ptext found =
     (\<exists>i j. is_first_occurrence (toLowerCase ptext) (hd found) i \<and>
            is_last_occurrence (toLowerCase ptext) (last found) j \<and>
            \<bar>int j - int i\<bar> < 200)"
proof -
  define t where "t = toLowerCase ptext"
  have h: "found ! 0 = hd found" "found ! (length found - Suc 0) = last found"
    using assms by (simp_all add: hd_conv_nth last_conv_nth)
  have p: "proximity ptext found =
      (indexOf t (hd found) \<noteq> - 1 \<and> lastIndexOf t (last found) \<noteq> - 1 \<and>
       \<bar>lastIndexOf t (last found) - indexOf t (hd found)\<bar> < 200)"
    by (simp add: proximity_def Let_def h t_def)
  show ?thesis
    unfolding p t_def[symmetric]
  proof
    assume a: "indexOf t (hd found) \<noteq> - 1 \<and> lastIndexOf t (last found) \<noteq> - 1 \<and>
       \<bar>lastIndexOf t (last found) - indexOf t (hd found)\<bar> < 200"
    obtain i where i: "is_first_occurrence t (hd found) i"
      using a indexOf_found by blast
    obtain j where j: "is_last_occurrence t (last found) j"
      using a lastIndexOf_found by blast
    have "indexOf t (hd found) = int i"
      using indexOf_from_first[OF i, of 0] by (simp add: indexOf_def)
    moreover have "lastIndexOf t (last found) = int j"
      using lastIndexOf_from_last[OF j, of 0 "- 1"] by (simp add: lastIndexOf_def)
    ultimately show "\<exists>i j. is_first_occurrence t (hd found) i \<and>
        is_last_occurrence t (last found) j \<and> \<bar>int j - int i\<bar> < 200"
      using a i j by auto
  next
    assume "\<exists>i j. is_first_occurrence t (hd found) i \<and>
        is_last_occurrence t (last found) j \<and> \<bar>int j - int i\<bar> < 200"
    then obtain i j where i: "is_first_occurrence t (hd found) i"
      and j: "is_last_occurrence t (last found) j" and d: "\<bar>int j - int i\<bar> < 200"
      by blast
    have "indexOf t (hd found) = int i"
      using indexOf_from_first[OF i, of 0] by (simp add: indexOf_def)
    moreover have "lastIndexOf t (last found) = int j"
      using lastIndexOf_from_last[OF j, of 0 "- 1"] by (simp add: lastIndexOf_def)
    ultimately show "indexOf t (hd found) \<noteq> - 1 \<and> lastIndexOf t (last found) \<noteq> - 1 \<and>
       \<bar>lastIndexOf t (last found) - indexOf t (hd found)\<bar> < 200"
      using d by simp
  qed
qed

lemma lower_char_space: "is_space c \<Longrightarrow> lower_char c = c"
  by (cases c) auto

lemma replace_ws_all_space:
  "\<forall>c\<in>set s. is_space c \<Longrightarrow> replace_ws_from True r s = []"
  "\<forall>c\<in>set s. is_space c \<Longrightarrow> replace_ws_from False r s = (if s = [] then [] else r)"
proof -
  show t: "\<forall>c\<in>set s. is_space c \<Longrightarrow> replace_ws_from True r s = []" for s
    by (induction s) simp_all
  show "\<forall>c\<in>set s. is_space c \<Longrightarrow> replace_ws_from False r s = (if s = [] then [] else r)"
    using t by (cases s) simp_all
qed

lemma trim_Nil_iff: "trim s = [] \<longleftrightarrow> (\<forall>c\<in>set s. is_space c)"
proof
  assume "trim s = []"
  then have "\<forall>c\<in>set (dropWhile is_space s). is_space c"
    by (simp add: trim_def dropWhile_eq_Nil_conv)
  then have "dropWhile is_space s = []"
    using hd_dropWhile[of is_space s] by (cases "dropWhile is_space s") auto
  then show "\<forall>c\<in>set s. is_space c"
    by (simp add: dropWhile_eq_Nil_conv)
next
  assume "\<forall>c\<in>set s. is_space c"
  then have d: "dropWhile is_space s = []"
    by (simp add: dropWhile_eq_Nil_conv)
  show "trim s = []"
    by (simp only: trim_def d rev.simps dropWhile.simps)
qed

lemma clean_of_blank:
  assumes "trim lname = []"
  shows "cleanLegalName lname = []"
proof -
  have s: "\<forall>c\<in>set lname. is_space c"
    using assms by (simp add: trim_Nil_iff)
  then have l: "toLowerCase lname = lname"
    by (simp add: toLowerCase_def lower_char_space map_idI)
  have "is_space CHR '' ''"
    by simp
  then have "trim '' '' = []"
    by (simp add: trim_def)
  then have "normalize lname = []"
    using s by (simp add: normalize_def l replace_ws_runs_def replace_ws_all_space trim_def)
  then show ?thesis
    by (simp add: cleanLegalName_def trim_def)
qed

lemma nameParts_Nil [simp]: "nameParts [] = []"
  by (simp add: nameParts_def split_ws_def)

lemma proximity_general:
  assumes "2 \<le> length (nameParts (cleanLegalName lname))"
    and "R (exactPattern (cleanLegalName lname)) ptext = Inr False"
    and "foundParts R (nameParts (cleanLegalName lname)) ptext = Inr found"
    and "2 \<le> length found"
  shows "containsLegalName R ptext lname =
     Inr (\<exists>i j. is_first_occurrence (toLowerCase ptext) (hd found) i \<and>
                is_last_occurrence (toLowerCase ptext) (last found) j \<and>
                \<bar>int j - int i\<bar> < 200)"
proof -
  have c: "cleanLegalName lname \<noteq> []"
    using assms(1) by auto
  have t: "trim lname \<noteq> []"
    using c clean_of_blank by blast
  have n: "lname \<noteq> []"
    using t by (auto simp: trim_def)
  have f: "found \<noteq> []"
    using assms(4) by auto
  have "containsLegalName R ptext lname = Inr (proximity ptext found)"
    using assms c t n by (simp add: containsLegalName_def Let_def)
  then show ?thesis
    by (simp add: proximity_occurrences[OF f])
qed

lemma starts_with_length: "starts_with t k \<Longrightarrow> length k \<le> length t"
  by (induction t k rule: starts_with.induct) simp_all

lemma starts_with_append: "starts_with (k @ t) k"
  by (induction k) simp_all

lemma starts_with_refl: "starts_with k k"
  using starts_with_append[of k "[]"] by simp

lemma first_occurrence_unique:
  "is_first_occurrence t k i \<Longrightarrow> is_first_occurrence t k j \<Longrightarrow> i = j"
  unfolding is_first_occurrence_def by (meson linorder_neqE_nat)

lemma last_occurrence_unique:
  "is_last_occurrence t k i \<Longrightarrow> is_last_occurrence t k j \<Longrightarrow> i = j"
  unfolding is_last_occurrence_def by (meson linorder_neqE_nat)

lemma first_at_head: "is_first_occurrence (k @ t) k 0"
  by (simp add: is_first_occurrence_def occurs_at_def starts_with_append)

lemma last_at_tail:
  assumes "k \<noteq> []"
  shows "is_last_occurrence (t @ k) k (length t)"
proof -
  have "occurs_at (t @ k) k (length t)"
    by (simp add: occurs_at_def starts_with_refl)
  moreover have "\<not> occurs_at (t @ k) k j" if "j > length t" for j
  proof
    assume "occurs_at (t @ k) k j"
    then have "length k \<le> length (drop j (t @ k))"
      unfolding occurs_at_def using starts_with_length by blast
    then have "length k \<le> length t + length k - j"
      by simp
    moreover have "0 < length k"
      using assms by simp
    ultimately show False using that by linarith
  qed
  ultimately show ?thesis
    by (simp add: is_last_occurrence_def)
qed

lemma john_doe_clean:
  "cleanLegalName ''John Doe'' = ''john doe''"
  "nameParts ''john doe'' = [''john'', ''doe'']"
  "trim ''John Doe'' \<noteq> []"
  "toLowerCase ''John'' = ''john''"
  "toLowerCase ''Doe'' = ''doe''"
  by code_simp+

lemma john_doe_separation:
  assumes "R (exactPattern ''john doe'') (''John'' @ sep @ ''Doe'') = Inr False"
    and "R (partPattern ''john'') (''John'' @ sep @ ''Doe'') = Inr True"
    and "R (partPattern ''doe'') (''John'' @ sep @ ''Doe'') = Inr True"
  shows "containsLegalName R (''John'' @ sep @ ''Doe'') ''John Doe'' = Inr (length sep + 4 < 200)"
proof -
  define t where "t = toLowerCase (''John'' @ sep @ ''Doe'')"
  have t: "t = ''john'' @ (toLowerCase sep @ ''doe'')" "t = (''john'' @ toLowerCase sep) @ ''doe''"
    using john_doe_clean(4,5) by (simp_all add: t_def toLowerCase_def)
  have f: "is_first_occurrence t ''john'' 0"
    unfolding t(1) by (rule first_at_head)
  have len: "length (''john'' @ toLowerCase sep) = length sep + 4"
    by (simp add: toLowerCase_def)
  have "is_last_occurrence ((''john'' @ toLowerCase sep) @ ''doe'') ''doe''
      (length (''john'' @ toLowerCase sep))"
    by (rule last_at_tail) simp
  then have l: "is_last_occurrence t ''doe'' (length sep + 4)"
    unfolding t(2) len .
  have p: "proximity (''John'' @ sep @ ''Doe'') [''john'', ''doe''] = (length sep + 4 < 200)"
  proof -
    have "proximity (''John'' @ sep @ ''Doe'') [''john'', ''doe''] =
        (\<exists>i j. is_first_occurrence t ''john'' i \<and> is_last_occurrence t ''doe'' j \<and>
               \<bar>int j - int i\<bar> < 200)"
      by (simp add: proximity_occurrences t_def)
    also have "\<dots> = (\<bar>int (length sep + 4) - int 0\<bar> < 200)"
      using f l first_occurrence_unique[OF f] last_occurrence_unique[OF l] by metis
    finally show ?thesis by simp
  qed
  have fp: "foundParts R [''john'', ''doe''] (''John'' @ sep @ ''Doe'') = Inr [''john'', ''doe'']"
    using assms(2,3) by simp
  show ?thesis
    using assms(1) john_doe_clean(3) fp p
    by (simp add: containsLegalName_def john_doe_clean(1,2))
qed



lemma RegExp_i_test_invalid:
  "parse_pattern src = Invalid m \<Longrightarrow>
   RegExp_i_test ext src subject =
     Inl (JsError (''Invalid regular expression: /'' @ src @ ''/i: '' @ m))"
  by (simp add: RegExp_i_test_def)

lemma unclosed_exact:
  "cleanLegalName ''Acme (Traders'' = ''acme (traders''"
  "trim ''Acme (Traders'' \<noteq> []"
  "parse_pattern (exactPattern ''acme (traders'') = Invalid ''Unterminated group''"
  by code_simp+

lemma unclosed_part:
  "cleanLegalName ''(Acme Traders)'' = ''(acme traders)''"
  "trim ''(Acme Traders)'' \<noteq> []"
  "nameParts ''(acme traders)'' = [''(acme'', ''traders)'']"
  "parse_pattern (partPattern ''(acme'') = Invalid ''Unterminated group''"
  by code_simp+

text \<open>
  C9. \<open>containsLegalName\<close> does not return a boolean for every legal name. With an
  opening parenthesis that is never closed the exact pattern is no pattern, and the
  constructor throws on every page text; with the whole name in parentheses the exact
  pattern is one, and where it does not match, the pattern of the first part throws. In
  an audit the exception ends the run as its error: on \<open>flaky_site\<close>, the legal name is
  looked for on the privacy page the primary pass found.
\<close>

theorem legal_name_pattern_throws:
  "containsLegalName (RegExp_i_test ext) ptext ''Acme (Traders'' =
     Inl (JsError (''Invalid regular expression: /'' @ exactPattern ''acme (traders'' @
                   ''/i: Unterminated group'')) \<and>
   (RegExp_i_test ext (exactPattern ''(acme traders)'') ptext = Inr False \<longrightarrow>
      containsLegalName (RegExp_i_test ext) ptext ''(Acme Traders)'' =
        Inl (JsError (''Invalid regular expression: /'' @ partPattern ''(acme'' @
                      ''/i: Unterminated group''))) \<and>
   error (checkWebsite (RegExp_i_test ext) flaky_site ''shop.test'' ''goods'' ''proprietor''
            ''Acme (Traders'' []) =
     Some (''Invalid regular expression: /'' @ exactPattern ''acme (traders'' @
           ''/i: Unterminated group'')"
proof (intro conjI impI)
  show "containsLegalName (RegExp_i_test ext) ptext ''Acme (Traders'' =
     Inl (JsError (''Invalid regular expression: /'' @ exactPattern ''acme (traders'' @
                   ''/i: Unterminated group''))"
    using unclosed_exact(2)
    by (simp add: containsLegalName_def unclosed_exact(1)
        RegExp_i_test_invalid[OF unclosed_exact(3)])
next
  assume "RegExp_i_test ext (exactPattern ''(acme traders)'') ptext = Inr False"
  then show "containsLegalName (RegExp_i_test ext) ptext ''(Acme Traders)'' =
        Inl (JsError (''Invalid regular expression: /'' @ partPattern ''(acme'' @
                      ''/i: Unterminated group''))"
    using unclosed_part(2)
    by (simp add: containsLegalName_def unclosed_part(1,3)
        RegExp_i_test_invalid[OF unclosed_part(4)])
next
  show "error (checkWebsite (RegExp_i_test ext) flaky_site ''shop.test'' ''goods'' ''proprietor''
            ''Acme (Traders'' []) =
     Some (''Invalid regular expression: /'' @ exactPattern ''acme (traders'' @
           ''/i: Unterminated group'')"
    by code_simp
qed

theorem legal_name_pattern_throws_witness:
  "RegExp_i_test no_engine (exactPattern ''(acme traders)'') ''traders acme'' = Inr False \<and>
   containsLegalName (RegExp_i_test no_engine) ''traders acme'' ''(Acme Traders)'' =
     Inl (JsError (''Invalid regular expression: /'' @ partPattern ''(acme'' @
                   ''/i: Unterminated group'')) \<and>
   containsLegalName (RegExp_i_test no_engine) ''traders acme'' ''Acme (Traders'' =
     Inl (JsError (''Invalid regular expression: /'' @ exactPattern ''acme (traders'' @
                   ''/i: Unterminated group''))"
proof -
  note T = legal_name_pattern_throws[where ext=no_engine and ptext="''traders acme''"]
  have h: "RegExp_i_test no_engine (exactPattern ''(acme traders)'') ''traders acme'' = Inr False"
    by code_simp
  have a: "containsLegalName (RegExp_i_test no_engine) ''traders acme'' ''(Acme Traders)'' =
     Inl (JsError (''Invalid regular expression: /'' @ partPattern ''(acme'' @
                   ''/i: Unterminated group''))"
    using T[THEN conjunct2, THEN conjunct1] h by blast
  have b: "containsLegalName (RegExp_i_test no_engine) ''traders acme'' ''Acme (Traders'' =
     Inl (JsError (''Invalid regular expression: /'' @ exactPattern ''acme (traders'' @
                   ''/i: Unterminated group''))"
    by (rule T[THEN conjunct1])
  show ?thesis
    using h a b by (intro conjI)
qed

end
